theory Spec2Isabelle
  imports Complex_Main
begin

section \<open>Values of the sampler's world\<close>

text \<open>
  The class \<open>MCMCSample\<close> of \<open>carmcmc/samplers.py\<close> keeps a dictionary
  \<open>_samples\<close> from parameter names to numpy arrays and computes diagnostics from
  them. The embedding keeps the Python names. Floating-point numbers are idealised as
  reals (no rounding, no \<open>inf\<close>, no \<open>nan\<close>); a numpy array is its shape
  together with its elements in row-major order; the elements are complex numbers, a
  float array being one whose elements have imaginary part zero.

  The exceptions are those Python raises: \<open>KeyError\<close> for a missing dictionary
  key, \<open>IndexError\<close> for \<open>shape[k]\<close> or \<open>a[i]\<close> out of range,
  \<open>TypeError\<close> for subscripting \<open>None\<close>, \<open>IOError\<close> for a file that
  cannot be opened, and \<open>ValueError\<close> and \<open>RuntimeError\<close> as numpy,
  scipy and acor raise them.
\<close>

datatype error =
    KeyError string
  | IndexError
  | TypeError
  | IOError
  | ValueError
  | RuntimeError

record ndarray =
  shape :: "nat list"
  flat :: "complex list"

text \<open>\<open>a.shape[k]\<close>: a tuple index out of range raises \<open>IndexError\<close>.\<close>

definition shape_at :: "ndarray \<Rightarrow> nat \<Rightarrow> error + nat" where
  "shape_at a k = (if k < length (shape a) then Inr (shape a ! k) else Inl IndexError)"

text \<open>\<open>a.ndim\<close>.\<close>

definition ndim :: "ndarray \<Rightarrow> nat" where
  "ndim a = length (shape a)"

text \<open>
  \<open>a[:, i]\<close> for an array of at least two dimensions and \<open>i\<close> below
  \<open>a.shape[1]\<close>: of every block of the first axis, the \<open>i\<close>-th block of the
  second axis. The callers below only ask for it inside \<open>range(a.shape[1])\<close>.
\<close>

definition column :: "ndarray \<Rightarrow> nat \<Rightarrow> ndarray" where
  "column a i =
     (case shape a of
        n # d # rest \<Rightarrow>
          \<lparr>shape = n # rest,
           flat = concat (map (\<lambda>r. take (prod_list rest)
                                    (drop ((r * d + i) * prod_list rest) (flat a))) [0..<n])\<rparr>
      | _ \<Rightarrow> a)"

text \<open>\<open>a.real\<close>: the real parts, elementwise.\<close>

definition real_part :: "ndarray \<Rightarrow> ndarray" where
  "real_part a = a\<lparr>flat := map (\<lambda>z. complex_of_real (Re z)) (flat a)\<rparr>"

section \<open>The sample store\<close>

text \<open>
  Arrays are objects: two names can hold the same array, and \<open>copy()\<close> makes a new
  one. The heap is the list of the array objects made so far, an address is an index
  into it, and a new object is appended. \<open>_samples\<close> is a Python dictionary, kept
  here as an association list in insertion order from names to addresses.
\<close>

type_synonym addr = nat

record mcmc_sample =
  heap :: "ndarray list"
  samples :: "(string \<times> addr) list"

text \<open>\<open>MCMCSample()\<close> with no argument: the empty dictionary.\<close>

definition init :: mcmc_sample where
  "init = \<lparr>heap = [], samples = []\<rparr>"

text \<open>\<open>d[k] = v\<close> on a dictionary: a present key keeps its place, a new one goes last.\<close>

fun setitem :: "string \<Rightarrow> addr \<Rightarrow> (string \<times> addr) list \<Rightarrow> (string \<times> addr) list" where
  "setitem k v [] = [(k, v)]"
| "setitem k v ((k', v') # d) = (if k = k' then (k, v) # d else (k', v') # setitem k v d)"

text \<open>Every stored address is an object of the heap.\<close>

definition wf :: "mcmc_sample \<Rightarrow> bool" where
  "wf self = list_all (\<lambda>(k, a). a < length (heap self)) (samples self)"

text \<open>
  \<open>get_samples\<close> (lines 47 to 55): \<open>self._samples[name].copy()\<close>. The result is
  the address of the copy, a new object.
\<close>

definition get_samples :: "mcmc_sample \<Rightarrow> string \<Rightarrow> (error + addr) \<times> mcmc_sample" where
  "get_samples self name =
     (case map_of (samples self) name of
        None \<Rightarrow> (Inl (KeyError name), self)
      | Some a \<Rightarrow>
          (Inr (length (heap self)), self\<lparr>heap := heap self @ [heap self ! a]\<rparr>))"

text \<open>The array a name holds, if any: what \<open>self._samples[name]\<close> denotes.\<close>

definition trace_of :: "mcmc_sample \<Rightarrow> string \<Rightarrow> ndarray option" where
  "trace_of self name = map_option (\<lambda>a. heap self ! a) (map_of (samples self) name)"

text \<open>
  A caller writing into an array it holds, as \<open>x[0] = 5\<close> or \<open>x *= 2\<close> do: the
  object at the address gets new contents, whatever they are.
\<close>

definition mutate :: "mcmc_sample \<Rightarrow> addr \<Rightarrow> ndarray \<Rightarrow> mcmc_sample" where
  "mutate self b v = self\<lparr>heap := (heap self)[b := v]\<rparr>"

section \<open>Autocorrelation time and effective sample size\<close>

text \<open>
  \<open>acor.acor\<close> is a library outside the repository: it is a parameter, a function
  from a series to \<open>(tau, mean, sigma)\<close> or to the exception it raises.
\<close>

type_synonym estimator = "ndarray \<Rightarrow> error + real \<times> real \<times> real"

text \<open>
  \<open>autocorr_timescale\<close> (lines 74 to 84). The loop over \<open>range(trace.shape[1])\<close>
  appends one \<open>tau\<close> a column; \<open>trace.shape[1]\<close> is read before the first call
  of the estimator.
\<close>

fun acor_loop :: "estimator \<Rightarrow> ndarray \<Rightarrow> nat list \<Rightarrow> real list \<Rightarrow> error + real list" where
  "acor_loop acor trace [] acors = Inr acors"
| "acor_loop acor trace (i # is) acors =
     (case acor (real_part (column trace i)) of
        Inl e \<Rightarrow> Inl e
      | Inr (tau, mean, sigma) \<Rightarrow> acor_loop acor trace is (acors @ [tau]))"

definition autocorr_timescale :: "estimator \<Rightarrow> ndarray \<Rightarrow> error + real list" where
  "autocorr_timescale acor trace =
     (case shape_at trace 1 of
        Inl e \<Rightarrow> Inl e
      | Inr d \<Rightarrow> acor_loop acor trace [0..<d] [])"

text \<open>
  \<open>effective_samples\<close> (lines 86 to 101). The result is what is printed and what is
  returned or raised; \<open>None\<close> is Python's \<open>None\<close>, returned by the bare
  \<open>return\<close> of the guard.
\<close>

definition effective_samples ::
  "estimator \<Rightarrow> mcmc_sample \<Rightarrow> string \<Rightarrow> string list \<times> (error + real list option)" where
  "effective_samples acor self name =
     (case map_of (samples self) name of
        None \<Rightarrow> ([''WARNING: sampler does not have '' @ name], Inr None)
      | Some a \<Rightarrow>
          ([''Calculating effective number of samples''],
           (let traces = heap self ! a in
            case shape_at traces 0 of
              Inl e \<Rightarrow> Inl e
            | Inr npts \<Rightarrow>
                (case autocorr_timescale acor traces of
                   Inl e \<Rightarrow> Inl e
                 | Inr timescale \<Rightarrow>
                     Inr (Some (map (\<lambda>tau. real npts / tau) timescale))))))"

text \<open>
  A stand-in for the estimator, to run the code on concrete arrays: it reports
  \<open>tau = 1\<close> for every series. The general theorems below hold for every
  estimator; this one only appears where the code is run on a concrete store.
\<close>

definition acor_unit :: estimator where
  "acor_unit x = Inr (1, 0, 0)"

text \<open>
  The estimator itself, after the C source of the \<open>acor\<close> package (\<open>acor.c\<close>,
  called with its default \<open>maxlag = 10\<close>). It is not part of the repository; it
  stands here as the estimator the code calls, to run the code on a trace the real
  estimator accepts. A series shorter than \<open>MINFAC * MAXLAG = 50\<close> is refused. The
  series is centred on its mean, the autocovariances \<open>C[s]\<close> for the lags 0 to 10
  are averaged over the first \<open>L - 10\<close> products, \<open>D\<close> is \<open>C[0]\<close> plus twice
  the others, and the provisional \<open>tau\<close> is \<open>D / C[0]\<close>. When
  \<open>tau * WINMULT < MAXLAG\<close> this is the result; otherwise the routine is applied
  to the sums of neighbouring pairs and \<open>tau\<close> is recomputed from the \<open>sigma\<close>
  it leaves. The Python wrapper raises \<open>RuntimeError\<close> when the routine does not
  return 0.
\<close>

definition WINMULT :: real where
  "WINMULT = 5"

definition MAXLAG :: nat where
  "MAXLAG = 10"

definition MINFAC :: nat where
  "MINFAC = 5"

definition centred :: "real list \<Rightarrow> real list" where
  "centred X = map (\<lambda>x. x - sum_list X / real (length X)) X"

definition autocov :: "real list \<Rightarrow> nat \<Rightarrow> real" where
  "autocov Y s =
     sum_list (map (\<lambda>i. Y ! i * Y ! (i + s)) [0..<length Y - MAXLAG])
       / real (length Y - MAXLAG)"

definition diffusion :: "real list \<Rightarrow> real" where
  "diffusion Y = autocov Y 0 + sum_list (map (\<lambda>s. 2 * autocov Y s) [1..<MAXLAG + 1])"

fun pairwise_sums :: "real list \<Rightarrow> real list" where
  "pairwise_sums (a # b # xs) = (a + b) # pairwise_sums xs"
| "pairwise_sums xs = []"

text \<open>
  The routine returns its status and leaves \<open>sigma\<close> and \<open>tau\<close> behind pointers;
  here it takes the two values its caller holds and returns the status with the two
  values it leaves. The status of the inner call is not looked at.
\<close>

function acor_fn :: "real list \<Rightarrow> real \<times> real \<Rightarrow> nat \<times> real \<times> real" where
  "acor_fn X (sigma, tau) =
     (if length X < MINFAC * MAXLAG then (1, sigma, tau)
      else if diffusion (centred X) < 0 then (2, sigma, tau)
      else if diffusion (centred X) / autocov (centred X) 0 * WINMULT < real MAXLAG
      then (0, sqrt (diffusion (centred X) / real (length X)),
               diffusion (centred X) / autocov (centred X) 0)
      else (case acor_fn (pairwise_sums (centred X))
                   (sqrt (diffusion (centred X) / real (length X)),
                    diffusion (centred X) / autocov (centred X) 0) of
              (info, sigma', tau') \<Rightarrow>
                (0, sqrt (0.25 * sigma' * sigma' * real (length X) / real (length X)),
                    0.25 * sigma' * sigma' * real (length X) / autocov (centred X) 0)))"
  by pat_completeness auto
termination
proof (relation "measure (\<lambda>(X, p). length X)", goal_cases)
  case 1
  then show ?case by simp
next
  case (2 X sigma tau)
  have half: "length (pairwise_sums xs) = length xs div 2" for xs
    by (induction xs rule: pairwise_sums.induct) simp_all
  from 2(1) have "0 < length X"
    unfolding MINFAC_def MAXLAG_def by linarith
  then have "length (pairwise_sums (centred X)) < length X"
    by (simp add: half centred_def)
  then show ?case by simp
qed

text \<open>\<open>acor.acor(x)\<close> on a one-dimensional float array: \<open>(tau, mean, sigma)\<close>.\<close>

definition acor_acor :: estimator where
  "acor_acor x =
     (case acor_fn (map Re (flat x)) (0, 0) of
        (info, sigma, tau) \<Rightarrow>
          if info = 0
          then Inr (tau, sum_list (map Re (flat x)) / real (length (flat x)), sigma)
          else Inl RuntimeError)"

section \<open>Ingestion from files\<close>

text \<open>
  A file is its text; \<open>files\<close> maps a file name to the text of the file, or to
  nothing when \<open>open\<close> fails. \<open>readline\<close> returns the first line with its
  line terminator, or the whole text when it has none.
\<close>

abbreviation NL :: char where
  "NL \<equiv> CHR 0x0A"

definition readline :: "string \<Rightarrow> string" where
  "readline content =
     (if NL \<in> set content then takeWhile (\<lambda>c. c \<noteq> NL) content @ [NL] else content)"

text \<open>
  \<open>np.genfromtxt(fname, skip_header=1)\<close> is numpy's: a parameter, from the text of
  the file and the number of header lines to the array or to the exception it raises.
\<close>

type_synonym parser = "string \<Rightarrow> nat \<Rightarrow> error + ndarray"

text \<open>
  \<open>generate_from_file\<close> (lines 57 to 72). An exception leaves the loop with the
  dictionary as the earlier files made it, so the result is the exception, if any,
  together with the store. The file is parsed before the name is looked up. The parsed
  array becomes an object of the heap when it is stored; an array that is dropped is
  garbage and is not kept.
\<close>

fun generate_from_file ::
  "parser \<Rightarrow> (string \<Rightarrow> string option) \<Rightarrow> mcmc_sample \<Rightarrow> string list
     \<Rightarrow> error option \<times> mcmc_sample" where
  "generate_from_file genfromtxt files self [] = (None, self)"
| "generate_from_file genfromtxt files self (fname # filename) =
     (case files fname of
        None \<Rightarrow> (Some IOError, self)
      | Some content \<Rightarrow>
          (case genfromtxt content 1 of
             Inl e \<Rightarrow> (Some e, self)
           | Inr trace \<Rightarrow>
               generate_from_file genfromtxt files
                 (if map_of (samples self) (readline content) = None
                  then self\<lparr>heap := heap self @ [trace],
                            samples := setitem (readline content) (length (heap self)) (samples self)\<rparr>
                  else self)
                 filename))"

text \<open>
  \<open>newaxis\<close> (lines 427 to 430): every one-dimensional array of the dictionary is
  replaced by \<open>a[:, np.newaxis]\<close>, a new array object of shape \<open>(n, 1)\<close> over
  the same elements.
\<close>

fun newaxis_loop :: "mcmc_sample \<Rightarrow> string list \<Rightarrow> error + mcmc_sample" where
  "newaxis_loop self [] = Inr self"
| "newaxis_loop self (key # keys) =
     (case map_of (samples self) key of
        None \<Rightarrow> Inl (KeyError key)
      | Some a \<Rightarrow>
          newaxis_loop
            (if length (shape (heap self ! a)) = 1
             then self\<lparr>heap := heap self @ [(heap self ! a)\<lparr>shape := shape (heap self ! a) @ [1]\<rparr>],
                       samples := setitem key (length (heap self)) (samples self)\<rparr>
             else self)
            keys)"

definition newaxis :: "mcmc_sample \<Rightarrow> error + mcmc_sample" where
  "newaxis self = newaxis_loop self (map fst (samples self))"

section \<open>Posterior summaries\<close>

text \<open>
  \<open>posterior_summaries\<close> (lines 393 to 425) prints, for a scalar parameter or for
  every element of an array-valued one, the effective number of samples and five numpy
  reductions of the trace (median, standard deviation, three percentile pairs). The
  reductions are numpy's and are one parameter \<open>stats\<close>; what is printed is kept as
  a list of summaries, one for each block of \<open>print\<close> calls. The arguments
  \<open>mypath\<close> and \<open>flag\<close> of the method are not used by its body and are left
  out, as is the line \<open>effective_samples\<close> prints.
\<close>

datatype 'r summary =
    Scalar_summary "real list option" 'r
  | Element_summary nat real 'r

text \<open>\<open>traces.reshape(traces.shape[0], np.prod(traces.shape[1:]))\<close>.\<close>

definition reshape2 :: "ndarray \<Rightarrow> ndarray" where
  "reshape2 a = a\<lparr>shape := [hd (shape a), prod_list (tl (shape a))]\<rparr>"

fun summary_loop ::
  "(ndarray \<Rightarrow> 'r) \<Rightarrow> ndarray \<Rightarrow> real list option \<Rightarrow> nat list \<Rightarrow> 'r summary list
     \<Rightarrow> error + 'r summary list" where
  "summary_loop stats traces eff [] out = Inr out"
| "summary_loop stats traces eff (i # is) out =
     (case eff of
        None \<Rightarrow> Inl TypeError
      | Some es \<Rightarrow>
          if i < length es
          then summary_loop stats traces eff is
                 (out @ [Element_summary i (es ! i) (stats (column traces i))])
          else Inl IndexError)"

definition posterior_summaries ::
  "estimator \<Rightarrow> (ndarray \<Rightarrow> 'r) \<Rightarrow> mcmc_sample \<Rightarrow> string \<Rightarrow> error + 'r summary list" where
  "posterior_summaries acor stats self name =
     (case map_of (samples self) name of
        None \<Rightarrow> Inl (KeyError name)
      | Some a \<Rightarrow>
          (case snd (effective_samples acor self name) of
             Inl e \<Rightarrow> Inl e
           | Inr effective_nsamples \<Rightarrow>
               if ndim (heap self ! a) = 1
               then Inr [Scalar_summary effective_nsamples (stats (heap self ! a))]
               else
                 (let traces = (if ndim (heap self ! a) > 2 then reshape2 (heap self ! a)
                                else heap self ! a)
                  in case shape_at traces 1 of
                       Inl e \<Rightarrow> Inl e
                     | Inr d \<Rightarrow> summary_loop stats traces effective_nsamples [0..<d] [])))"

section \<open>Contour levels and stragglers\<close>

text \<open>
  The two computing blocks of \<open>plot_2dkde\<close>. \<open>hist\<close> is the density grid, the
  kernel density estimate evaluated on the mesh (a two-dimensional float array, here its
  rows). Line 241:
  \<^verbatim>\<open>hfrac = lambda level, hist=hist, frac=frac: hist[hist>=level].sum()/hist.sum() - frac\<close>
\<close>

type_synonym grid = "real list list"

definition hfrac :: "grid \<Rightarrow> real \<Rightarrow> real \<Rightarrow> real" where
  "hfrac hist frac' level =
     sum_list (filter (\<lambda>h. h \<ge> level) (concat hist)) / sum_list (concat hist) - frac'"

text \<open>\<open>hist.min()\<close> and \<open>hist.max()\<close>: numpy raises \<open>ValueError\<close> on an empty array.\<close>

definition hist_min :: "grid \<Rightarrow> error + real" where
  "hist_min hist = (case concat hist of [] \<Rightarrow> Inl ValueError | h # hs \<Rightarrow> Inr (Min (set (h # hs))))"

definition hist_max :: "grid \<Rightarrow> error + real" where
  "hist_max hist = (case concat hist of [] \<Rightarrow> Inl ValueError | h # hs \<Rightarrow> Inr (Max (set (h # hs))))"

text \<open>
  \<open>scipy.optimize.bisect(f, a, b)\<close> is scipy's: a parameter, from the function and the
  two ends of the interval to the root or to the exception it raises.
\<close>

type_synonym rootfinder = "(real \<Rightarrow> real) \<Rightarrow> real \<Rightarrow> real \<Rightarrow> error + real"

text \<open>
  Lines 239 to 243: the loop over the three mass fractions, in the order of the source.
  The arguments \<open>hist.min()\<close> and \<open>hist.max()\<close> are evaluated before the call.
\<close>

fun levels_loop :: "rootfinder \<Rightarrow> grid \<Rightarrow> real list \<Rightarrow> real list \<Rightarrow> error + real list" where
  "levels_loop bis hist [] clevels = Inr clevels"
| "levels_loop bis hist (frac' # fracs) clevels =
     (case hist_min hist of
        Inl e \<Rightarrow> Inl e
      | Inr lo \<Rightarrow>
          (case hist_max hist of
             Inl e \<Rightarrow> Inl e
           | Inr hi \<Rightarrow>
               (case bis (hfrac hist frac') lo hi of
                  Inl e \<Rightarrow> Inl e
                | Inr level \<Rightarrow> levels_loop bis hist fracs (clevels @ [level]))))"

definition fractions :: "real list" where
  "fractions = [0.9973, 0.9545, 0.6827]"

definition contour_levels :: "rootfinder \<Rightarrow> grid \<Rightarrow> error + real list" where
  "contour_levels bis hist = levels_loop bis hist fractions []"

text \<open>
  What a bisection routine promises, as scipy documents it for \<open>bisect\<close> with its
  default tolerances \<open>xtol = 2e-12\<close> and \<open>rtol = 4 * eps\<close>: it raises
  \<open>ValueError\<close> when the function has the same sign at both ends, and a result lies
  in the interval and is a root or has a point of the other sign within the tolerance.
\<close>

definition xtol :: real where
  "xtol = 2 / 10 ^ 12"

definition rtol :: real where
  "rtol = 4 / 2 ^ 52"

definition bisection_contract :: "rootfinder \<Rightarrow> bool" where
  "bisection_contract bis =
     (\<forall>g a b.
        (g a * g b > 0 \<longrightarrow> bis g a b = Inl ValueError) \<and>
        (\<forall>x. bis g a b = Inr x \<longrightarrow>
           min a b \<le> x \<and> x \<le> max a b \<and>
           (g x = 0 \<or>
            (\<exists>y. min a b \<le> y \<and> y \<le> max a b \<and>
                 \<bar>y - x\<bar> < xtol + rtol * \<bar>x\<bar> \<and> g x * g y < 0))))"

text \<open>
  The routine of scipy, after its C source (\<open>scipy/optimize/Zeros/bisect.c\<close>) and
  the Python wrapper's defaults (\<open>maxiter = 100\<close>): the interval is halved until the
  half width is below the tolerance or the function vanishes at the midpoint. It is not
  part of the repository; it stands here as one routine that keeps the promise above.
\<close>

fun bisect_loop :: "(real \<Rightarrow> real) \<Rightarrow> real \<Rightarrow> real \<Rightarrow> real \<Rightarrow> nat \<Rightarrow> error + real" where
  "bisect_loop f fa xa dm 0 = Inl RuntimeError"
| "bisect_loop f fa xa dm (Suc n) =
     (if f (xa + dm * (1/2)) = 0 \<or> \<bar>dm * (1/2)\<bar> < xtol + rtol * \<bar>xa + dm * (1/2)\<bar>
      then Inr (xa + dm * (1/2))
      else bisect_loop f fa
             (if f (xa + dm * (1/2)) * fa \<ge> 0 then xa + dm * (1/2) else xa)
             (dm * (1/2)) n)"

definition bisect :: rootfinder where
  "bisect f a b =
     (if f a = 0 then Inr a
      else if f b = 0 then Inr b
      else if (f a < 0) = (f b < 0) then Inl ValueError
      else bisect_loop f (f a) a (b - a) 100)"

text \<open>
  Lines 264 to 273: the points that no path of \<open>cont.collections[0]\<close> contains.
  \<open>collections\<close> holds the paths of every contour level, in the order of the levels;
  \<open>contains_point\<close> is matplotlib's and is a parameter. \<open>trace1\<close> and
  \<open>trace2\<close> are one-dimensional float arrays.
\<close>

fun straggler_loop ::
  "('path \<Rightarrow> real \<times> real \<Rightarrow> bool) \<Rightarrow> 'path list \<Rightarrow> real list \<Rightarrow> real list \<Rightarrow> nat list
     \<Rightarrow> real list \<Rightarrow> real list \<Rightarrow> error + real list \<times> real list" where
  "straggler_loop contains_point outer trace1 trace2 [] sx sy = Inr (sx, sy)"
| "straggler_loop contains_point outer trace1 trace2 (i # is) sx sy =
     (if i < length trace1 \<and> i < length trace2
      then
        (let found = map (\<lambda>o'. contains_point o' (trace1 ! i, trace2 ! i)) outer in
         if \<not> (True \<in> set found)
         then straggler_loop contains_point outer trace1 trace2 is
                (sx @ [trace1 ! i]) (sy @ [trace2 ! i])
         else straggler_loop contains_point outer trace1 trace2 is sx sy)
      else Inl IndexError)"

definition stragglers ::
  "('path \<Rightarrow> real \<times> real \<Rightarrow> bool) \<Rightarrow> 'path list list \<Rightarrow> real list \<Rightarrow> real list
     \<Rightarrow> error + real list \<times> real list" where
  "stragglers contains_point collections trace1 trace2 =
     (case collections of
        [] \<Rightarrow> Inl IndexError
      | outer # inner \<Rightarrow>
          straggler_loop contains_point outer trace1 trace2 [0..<length trace1] [] [])"

section \<open>Sample files\<close>

text \<open>
  Five small files to run ingestion on, and what \<open>np.genfromtxt(fname, skip_header=1)\<close>
  makes of each: a two-column table, a second table under the same header, a table with
  a blank line between its rows (numpy skips empty lines), a table whose second row has
  one column instead of two (numpy raises \<open>ValueError\<close>), and a one-column table
  (numpy returns a one-dimensional array). The table has these entries only; for any
  other text it answers \<open>ValueError\<close>.
\<close>

definition float_array :: "nat list \<Rightarrow> real list \<Rightarrow> ndarray" where
  "float_array sh xs = \<lparr>shape = sh, flat = map complex_of_real xs\<rparr>"

definition mu_txt :: string where
  "mu_txt = ''mu'' @ [NL] @ ''1 2'' @ [NL] @ ''3 4'' @ [NL]"

definition mu_again_txt :: string where
  "mu_again_txt = ''mu'' @ [NL] @ ''5 6'' @ [NL] @ ''7 8'' @ [NL]"

definition gap_txt :: string where
  "gap_txt = ''tau'' @ [NL] @ ''1 2'' @ [NL] @ [NL] @ ''3 4'' @ [NL]"

definition ragged_txt :: string where
  "ragged_txt = ''sigma'' @ [NL] @ ''1 2'' @ [NL] @ ''3'' @ [NL]"

definition var_txt :: string where
  "var_txt = ''var'' @ [NL] @ ''1'' @ [NL] @ ''2'' @ [NL] @ ''3'' @ [NL]"

definition sample_files :: "string \<Rightarrow> string option" where
  "sample_files fname =
     (if fname = ''mu.dat'' then Some mu_txt
      else if fname = ''mu_again.dat'' then Some mu_again_txt
      else if fname = ''gap.dat'' then Some gap_txt
      else if fname = ''ragged.dat'' then Some ragged_txt
      else if fname = ''var.dat'' then Some var_txt
      else None)"

definition genfromtxt_sample :: parser where
  "genfromtxt_sample content skip_header =
     (if skip_header = 1 \<and> content = mu_txt then Inr (float_array [2, 2] [1, 2, 3, 4])
      else if skip_header = 1 \<and> content = mu_again_txt then Inr (float_array [2, 2] [5, 6, 7, 8])
      else if skip_header = 1 \<and> content = gap_txt then Inr (float_array [2, 2] [1, 2, 3, 4])
      else if skip_header = 1 \<and> content = var_txt then Inr (float_array [3] [1, 2, 3])
      else Inl ValueError)"

text \<open>A store holding one trace of two iterations and two dimensions under \<open>mu\<close>.\<close>

definition two_by_two :: mcmc_sample where
  "two_by_two = \<lparr>heap = [float_array [2, 2] [1, 2, 3, 4]], samples = [(''mu'', 0)]\<rparr>"

text \<open>
  A complex trace of sixty iterations and one dimension, \<open>1 + i\<close> and \<open>-1 + i\<close>
  in turn, and the series of its real parts.
\<close>

definition long_complex_trace :: ndarray where
  "long_complex_trace =
     \<lparr>shape = [60, 1], flat = concat (replicate 30 [Complex 1 1, Complex (- 1) 1])\<rparr>"

definition alternating :: "real list" where
  "alternating = concat (replicate 30 [1, - 1])"

text \<open>
  Three density grids: one whose masses hit the three fractions exactly, one with all
  values equal, and a coarse one.
\<close>

definition exact_grid :: grid where
  "exact_grid = [[27, 428], [2718, 6827]]"

definition flat_grid :: grid where
  "flat_grid = [[1, 1], [1, 1]]"

definition coarse_grid :: grid where
  "coarse_grid = [[1, 2], [3, 4]]"

text \<open>
  A stand-in for matplotlib's \<open>Path.contains_point\<close>, to run the straggler loop on
  concrete points: a path that is a box with sides along the axes, given by its lower
  left and upper right corners.
\<close>

definition in_box :: "(real \<times> real) \<times> (real \<times> real) \<Rightarrow> real \<times> real \<Rightarrow> bool" where
  "in_box box p =
     (fst (fst box) < fst p \<and> fst p < fst (snd box) \<and>
      snd (fst box) < snd p \<and> snd p < snd (snd box))"

text \<open>The store after ingesting the first file, and after ingesting the one-column file.\<close>

definition mu_store :: mcmc_sample where
  "mu_store = \<lparr>heap = [float_array [2, 2] [1, 2, 3, 4]], samples = [(''mu'' @ [NL], 0)]\<rparr>"

definition var_store :: mcmc_sample where
  "var_store = \<lparr>heap = [float_array [3] [1, 2, 3]], samples = [(''var'' @ [NL], 0)]\<rparr>"

section \<open>Properties\<close>

subsection \<open>Queries on a name the store does not have\<close>

text \<open>
  Claim C4, as the code has it. For a name that is not a key of \<open>_samples\<close>,
  \<open>get_samples\<close> and \<open>posterior_summaries\<close> raise \<open>KeyError\<close> (the
  subscript \<open>self._samples[name]\<close> of lines 55 and 399) and leave the store as it
  was; \<open>effective_samples\<close> does not raise: its guard of lines 92 to 94 prints a
  warning and returns \<open>None\<close>.
\<close>

theorem absent_name_queries:
  assumes "map_of (samples self) name = None"
  shows "get_samples self name = (Inl (KeyError name), self)
       \<and> posterior_summaries acor stats self name = Inl (KeyError name)
       \<and> effective_samples acor self name =
           ([''WARNING: sampler does not have '' @ name], Inr None)"
  using assms
  by (simp add: get_samples_def posterior_summaries_def effective_samples_def)

theorem absent_name_queries_witness:
  "map_of (samples init) ''mu'' = None
   \<and> get_samples init ''mu'' = (Inl (KeyError ''mu''), init)
   \<and> posterior_summaries acor_unit (\<lambda>a. ()) init ''mu'' = Inl (KeyError ''mu'')
   \<and> effective_samples acor_unit init ''mu'' =
       ([''WARNING: sampler does not have mu''], Inr None)"
proof -
  have absent: "map_of (samples init) ''mu'' = None"
    by (simp add: init_def)
  show ?thesis
    using absent absent_name_queries [OF absent, of acor_unit "\<lambda>a. ()"] by simp
qed

text \<open>
  The claim as the specification words it fails for \<open>effective_samples\<close>: on the
  empty store the call returns \<open>None\<close> and raises nothing.
\<close>

theorem effective_samples_absent_returns_None:
  "snd (effective_samples acor_unit init ''mu'') = Inr None"
  by (simp add: effective_samples_def init_def)

subsection \<open>Effective sample size\<close>

lemma acor_loop_taus:
  "acor_loop acor trace is acors = Inr taus \<Longrightarrow>
     \<exists>new. taus = acors @ new \<and> length new = length is \<and>
       (\<forall>k<length is. \<exists>mean sigma.
          acor (real_part (column trace (is ! k))) = Inr (new ! k, mean, sigma))"
proof (induction "is" arbitrary: acors)
  case Nil
  then show ?case by simp
next
  case (Cons i "is")
  from Cons.prems obtain tau mean sigma where
    first: "acor (real_part (column trace i)) = Inr (tau, mean, sigma)"
    and later: "acor_loop acor trace is (acors @ [tau]) = Inr taus"
    by (auto split: sum.splits prod.splits)
  from Cons.IH [OF later] obtain new where
    new: "taus = (acors @ [tau]) @ new" "length new = length is"
    "\<forall>k<length is. \<exists>mean sigma.
       acor (real_part (column trace (is ! k))) = Inr (new ! k, mean, sigma)"
    by blast
  have "\<forall>k<length (i # is). \<exists>mean sigma.
          acor (real_part (column trace ((i # is) ! k))) = Inr ((tau # new) ! k, mean, sigma)"
  proof (intro allI impI)
    fix k assume "k < length (i # is)"
    then show "\<exists>mean sigma.
          acor (real_part (column trace ((i # is) ! k))) = Inr ((tau # new) ! k, mean, sigma)"
      using first new(3) by (cases k) auto
  qed
  with new show ?case by (intro exI [of _ "tau # new"]) simp
qed

lemma autocorr_timescale_taus:
  assumes "shape trace = n # d # rest" and "autocorr_timescale acor trace = Inr taus"
  shows "length taus = d \<and>
     (\<forall>i<d. \<exists>mean sigma. acor (real_part (column trace i)) = Inr (taus ! i, mean, sigma))"
proof -
  from assms have "acor_loop acor trace [0..<d] [] = Inr taus"
    by (simp add: autocorr_timescale_def shape_at_def)
  from acor_loop_taus [OF this] show ?thesis by auto
qed

text \<open>
  Section 4.3 of the specification: when the estimator fails on a dimension, the whole
  call fails with that exception.
\<close>

lemma effective_samples_fails_with_estimator:
  assumes "map_of (samples self) name = Some a"
    and "shape (heap self ! a) = n # d # rest"
    and "autocorr_timescale acor (heap self ! a) = Inl e"
  shows "snd (effective_samples acor self name) = Inl e"
  using assms by (simp add: effective_samples_def shape_at_def)

lemma autocorr_timescale_two_by_two:
  "autocorr_timescale acor_unit (float_array [2, 2] [1, 2, 3, 4]) = Inr [1, 1]"
  by (simp add: autocorr_timescale_def shape_at_def float_array_def acor_unit_def upt_rec)

text \<open>
  Claim C1. For a stored trace of \<open>n\<close> iterations and \<open>d\<close> dimensions on which
  the estimator succeeds, \<open>effective_samples\<close> returns \<open>n / tau\<close> for every
  \<open>tau\<close> of \<open>autocorr_timescale\<close>, in order; there are \<open>d\<close> of them, and
  the \<open>i\<close>-th is the estimator's \<open>tau\<close> for column \<open>i\<close>. The division is
  that of the reals, which is numpy's where \<open>tau\<close> is not zero.
\<close>

theorem effective_samples_is_n_over_tau:
  assumes "map_of (samples self) name = Some a"
    and "shape (heap self ! a) = n # d # rest"
    and "autocorr_timescale acor (heap self ! a) = Inr taus"
    and "\<forall>tau \<in> set taus. tau \<noteq> 0"
  shows "snd (effective_samples acor self name) = Inr (Some (map (\<lambda>tau. real n / tau) taus))
       \<and> length taus = d
       \<and> (\<forall>i<d. \<exists>mean sigma.
             acor (real_part (column (heap self ! a) i)) = Inr (taus ! i, mean, sigma))"
proof -
  have "snd (effective_samples acor self name) = Inr (Some (map (\<lambda>tau. real n / tau) taus))"
    using assms(1-3) by (simp add: effective_samples_def shape_at_def)
  with autocorr_timescale_taus [OF assms(2,3)] show ?thesis by simp
qed

theorem effective_samples_is_n_over_tau_witness:
  "map_of (samples two_by_two) ''mu'' = Some 0
   \<and> shape (heap two_by_two ! 0) = [2, 2]
   \<and> autocorr_timescale acor_unit (heap two_by_two ! 0) = Inr [1, 1]
   \<and> snd (effective_samples acor_unit two_by_two ''mu'') = Inr (Some [2 / 1, 2 / 1])"
proof -
  have stored: "map_of (samples two_by_two) ''mu'' = Some 0"
    by (simp add: two_by_two_def)
  have shaped: "shape (heap two_by_two ! 0) = 2 # 2 # []"
    by (simp add: two_by_two_def float_array_def)
  have taus: "autocorr_timescale acor_unit (heap two_by_two ! 0) = Inr [1, 1]"
    using autocorr_timescale_two_by_two by (simp add: two_by_two_def)
  have nonzero: "\<forall>tau \<in> set [1, 1 :: real]. tau \<noteq> 0"
    by simp
  show ?thesis
    using stored shaped taus effective_samples_is_n_over_tau [OF stored shaped taus nonzero]
    by simp
qed

subsection \<open>Complex traces\<close>

lemma real_part_idem: "real_part (real_part a) = real_part a"
  by (simp add: real_part_def)

lemma shape_real_part: "shape (real_part a) = shape a"
  by (simp add: real_part_def)

lemma column_real_part: "column (real_part a) i = real_part (column a i)"
  by (simp add: column_def real_part_def map_concat take_map drop_map comp_def
           split: list.splits)

lemma acor_loop_real_part:
  "acor_loop acor (real_part trace) is acors = acor_loop acor trace is acors"
  by (induction "is" arbitrary: acors)
     (simp_all add: column_real_part real_part_idem split: sum.splits prod.splits)

text \<open>
  Claim C8, as the code has it. \<open>autocorr_timescale\<close> does not reject a complex
  trace: line 82 hands \<open>trace[:, i].real\<close> to the estimator, so the result on any
  trace is the result on its real part, an exception only where the estimator raises
  one on that real series.
\<close>

theorem autocorr_timescale_takes_real_part:
  "autocorr_timescale acor trace = autocorr_timescale acor (real_part trace)"
  by (simp add: autocorr_timescale_def shape_at_def acor_loop_real_part shape_real_part)

text \<open>The estimator on the alternating series: the direct branch, \<open>tau = 1\<close>.\<close>

lemma length_alternating: "length alternating = 60"
  unfolding alternating_def by code_simp

lemma centred_alternating: "centred alternating = alternating"
  unfolding centred_def alternating_def by code_simp

lemma autocov_alternating: "autocov alternating 0 = 1"
  unfolding autocov_def MAXLAG_def alternating_def by code_simp

lemma diffusion_alternating: "diffusion alternating = 1"
  unfolding diffusion_def autocov_def MAXLAG_def alternating_def by code_simp

lemma sum_alternating: "sum_list alternating = 0"
  unfolding alternating_def by code_simp

lemma acor_fn_alternating: "acor_fn alternating (0, 0) = (0, sqrt (1 / 60), 1)"
  by (subst acor_fn.simps)
     (simp add: length_alternating centred_alternating autocov_alternating
        diffusion_alternating MINFAC_def MAXLAG_def WINMULT_def)

text \<open>A series shorter than 50 is refused.\<close>

lemma acor_acor_short: "length (flat x) < 50 \<Longrightarrow> acor_acor x = Inl RuntimeError"
  by (subst acor_acor_def, subst acor_fn.simps) (simp add: MINFAC_def MAXLAG_def)

text \<open>The only column of an array of shape \<open>(n, 1)\<close> holds all its elements.\<close>

lemma column_single:
  assumes "shape a = [n, 1]" and "length (flat a) = n"
  shows "column a 0 = \<lparr>shape = [n], flat = flat a\<rparr>"
proof -
  have blocks:
    "map (\<lambda>r. take 1 (drop r xs)) [0..<length xs] = map (\<lambda>r. [xs ! r]) [0..<length xs]"
    for xs :: "complex list"
  proof (rule map_cong [OF refl])
    fix r assume "r \<in> set [0..<length xs]"
    then have "r < length xs" by simp
    then have "drop r xs = xs ! r # drop (Suc r) xs"
      by (rule Cons_nth_drop_Suc [symmetric])
    then show "take 1 (drop r xs) = [xs ! r]" by simp
  qed
  have "concat (map (\<lambda>r. take 1 (drop r xs)) [0..<length xs]) = xs" for xs :: "complex list"
  proof -
    have "concat (map (\<lambda>r. take 1 (drop r xs)) [0..<length xs])
            = concat (map (\<lambda>r. [xs ! r]) [0..<length xs])"
      by (simp only: blocks)
    also have "\<dots> = map (\<lambda>r. xs ! r) [0..<length xs]"
      by (induction "[0..<length xs]") simp_all
    also have "\<dots> = xs"
      by (rule map_nth)
    finally show ?thesis .
  qed
  from this [of "flat a"] assms show ?thesis
    by (simp add: column_def)
qed

lemma real_series_of_long_complex_trace:
  "map Re (flat (real_part (column long_complex_trace 0))) = alternating"
proof -
  have "length (flat long_complex_trace) = 60"
    unfolding long_complex_trace_def by code_simp
  then have "column long_complex_trace 0 = \<lparr>shape = [60], flat = flat long_complex_trace\<rparr>"
    by (intro column_single) (simp_all add: long_complex_trace_def)
  then have "map Re (flat (real_part (column long_complex_trace 0)))
               = map Re (flat long_complex_trace)"
    by (simp add: real_part_def comp_def)
  also have "\<dots> = concat (replicate 30 [1, - 1])"
    by (simp add: long_complex_trace_def map_concat)
  finally show ?thesis by (simp add: alternating_def)
qed

lemma acor_acor_long_complex_trace:
  "acor_acor (real_part (column long_complex_trace 0)) = Inr (1, 0, sqrt (1 / 60))"
  unfolding acor_acor_def real_series_of_long_complex_trace acor_fn_alternating sum_alternating
  by simp

text \<open>
  The claim as the specification words it fails on a trace the estimator accepts: every
  one of the sixty values of the trace has imaginary part 1, the series of the real
  parts is 1, -1, 1, -1 and so on, for which \<open>acor\<close> computes \<open>C[s] = (-1)^s\<close>,
  \<open>D = 1\<close> and \<open>tau = 1\<close>, and \<open>autocorr_timescale\<close> returns that \<open>tau\<close>
  and raises nothing.
\<close>

theorem long_complex_trace_not_rejected:
  "list_all (\<lambda>z. Im z \<noteq> 0) (flat long_complex_trace)
   \<and> shape long_complex_trace = [60, 1]
   \<and> autocorr_timescale acor_acor long_complex_trace = Inr [1]"
proof -
  have "list_all (\<lambda>z. Im z \<noteq> 0) (flat long_complex_trace)"
    unfolding long_complex_trace_def by code_simp
  moreover have "shape long_complex_trace = [60, 1]"
    by (simp add: long_complex_trace_def)
  moreover from this have "autocorr_timescale acor_acor long_complex_trace = Inr [1]"
    by (simp add: autocorr_timescale_def shape_at_def acor_acor_long_complex_trace)
  ultimately show ?thesis by blast
qed

subsection \<open>The dictionary and the heap\<close>

lemma map_of_setitem: "map_of (setitem k v d) = (map_of d)(k \<mapsto> v)"
  by (induction d) (auto simp: fun_eq_iff)

lemma keys_setitem: "fst ` set (setitem k v d) = insert k (fst ` set d)"
  by (simp add: dom_map_of_conv_image_fst [symmetric] map_of_setitem)

lemma set_setitem: "set (setitem k v d) \<subseteq> insert (k, v) (set d)"
  by (induction k v d rule: setitem.induct) (auto split: if_splits)

lemma wf_store:
  "wf self \<Longrightarrow>
   wf (self\<lparr>heap := heap self @ [v], samples := setitem k (length (heap self)) (samples self)\<rparr>)"
  using set_setitem [of k "length (heap self)" "samples self"]
  by (fastforce simp: wf_def list_all_iff)

lemma wf_lookup: "wf self \<Longrightarrow> map_of (samples self) name = Some a \<Longrightarrow> a < length (heap self)"
  by (auto simp: wf_def list_all_iff dest!: map_of_SomeD)

lemma wf_init: "wf init"
  by (simp add: wf_def init_def)

lemma wf_get_samples: "wf self \<Longrightarrow> wf (snd (get_samples self name))"
  by (auto simp: get_samples_def wf_def list_all_iff split: option.splits)

lemma wf_newaxis_loop: "newaxis_loop self ks = Inr self' \<Longrightarrow> wf self \<Longrightarrow> wf self'"
proof (induction ks arbitrary: self)
  case Nil
  then show ?case by simp
next
  case (Cons key keys)
  from Cons.prems(1) obtain a where a: "map_of (samples self) key = Some a"
    by (auto split: option.splits)
  let ?next = "if length (shape (heap self ! a)) = 1
             then self\<lparr>heap := heap self @
                                  [(heap self ! a)\<lparr>shape := shape (heap self ! a) @ [1]\<rparr>],
                       samples := setitem key (length (heap self)) (samples self)\<rparr>
             else self"
  have "newaxis_loop ?next keys = Inr self'"
    using Cons.prems(1) a by simp
  moreover have "wf ?next"
    using Cons.prems(2) by (simp add: wf_store)
  ultimately show ?case by (rule Cons.IH)
qed

subsection \<open>Ingestion\<close>

text \<open>A trace that is stored stays as it is through any list of files.\<close>

lemma generate_from_file_keeps:
  "generate_from_file genfromtxt files self fnames = (r, self') \<Longrightarrow> wf self \<Longrightarrow>
   trace_of self name = Some t \<Longrightarrow> trace_of self' name = Some t \<and> wf self'"
proof (induction fnames arbitrary: self)
  case Nil
  then show ?case by simp
next
  case (Cons fname fnames)
  show ?case
  proof (cases "files fname")
    case None
    with Cons.prems show ?thesis by simp
  next
    case (Some content)
    show ?thesis
    proof (cases "genfromtxt content 1")
      case (Inl e)
      with Some Cons.prems show ?thesis by simp
    next
      case (Inr trace)
      let ?next = "if map_of (samples self) (readline content) = None
                  then self\<lparr>heap := heap self @ [trace],
                            samples := setitem (readline content) (length (heap self))
                                         (samples self)\<rparr>
                  else self"
      from Some Inr Cons.prems(1)
      have run: "generate_from_file genfromtxt files ?next fnames = (r, self')"
        by simp
      have wf_next: "wf ?next"
        using Cons.prems(2) by (simp add: wf_store)
      obtain a where a: "map_of (samples self) name = Some a" "heap self ! a = t"
        using Cons.prems(3) by (auto simp: trace_of_def)
      then have "a < length (heap self)"
        using Cons.prems(2) wf_lookup by blast
      with a have "trace_of ?next name = Some t"
        by (auto simp: trace_of_def map_of_setitem nth_append)
      from Cons.IH [OF run wf_next this] show ?thesis .
    qed
  qed
qed

text \<open>The files are taken one after the other, and the first exception ends the loop.\<close>

lemma generate_from_file_append:
  "generate_from_file genfromtxt files self (before @ later) =
     (case generate_from_file genfromtxt files self before of
        (Some e, mid) \<Rightarrow> (Some e, mid)
      | (None, mid) \<Rightarrow> generate_from_file genfromtxt files mid later)"
  by (induction before arbitrary: self) (auto split: option.splits sum.splits)

lemma generate_from_file_succeeds:
  "\<forall>f \<in> set fnames. \<exists>content trace. files f = Some content \<and> genfromtxt content 1 = Inr trace \<Longrightarrow>
   fst (generate_from_file genfromtxt files self fnames) = None"
  by (induction fnames arbitrary: self) auto

lemma last_readline:
  "NL \<in> set content \<Longrightarrow> readline content \<noteq> [] \<and> last (readline content) = NL"
  by (simp add: readline_def)

lemma readline_header: "NL \<notin> set name \<Longrightarrow> readline (name @ NL # body) = name @ [NL]"
proof -
  assume "NL \<notin> set name"
  then have "takeWhile (\<lambda>c. c \<noteq> NL) (name @ NL # body) = name"
    by (subst takeWhile_append2) auto
  then show ?thesis by (simp add: readline_def)
qed

text \<open>The sample files, read and parsed.\<close>

lemma readline_mu: "readline mu_txt = ''mu'' @ [NL]"
  by (simp add: readline_def mu_txt_def)

lemma readline_mu_again: "readline mu_again_txt = ''mu'' @ [NL]"
  by (simp add: readline_def mu_again_txt_def)

lemma readline_gap: "readline gap_txt = ''tau'' @ [NL]"
  by (simp add: readline_def gap_txt_def)

lemma readline_var: "readline var_txt = ''var'' @ [NL]"
  by (simp add: readline_def var_txt_def)

lemma parse_mu: "genfromtxt_sample mu_txt 1 = Inr (float_array [2, 2] [1, 2, 3, 4])"
  by (simp add: genfromtxt_sample_def)

lemma parse_gap: "genfromtxt_sample gap_txt 1 = Inr (float_array [2, 2] [1, 2, 3, 4])"
  by (simp add: genfromtxt_sample_def mu_txt_def mu_again_txt_def gap_txt_def)

lemma parse_ragged: "genfromtxt_sample ragged_txt 1 = Inl ValueError"
  by (simp add: genfromtxt_sample_def mu_txt_def mu_again_txt_def gap_txt_def ragged_txt_def
        var_txt_def)

lemma parse_var: "genfromtxt_sample var_txt 1 = Inr (float_array [3] [1, 2, 3])"
  by (simp add: genfromtxt_sample_def mu_txt_def mu_again_txt_def gap_txt_def var_txt_def)

lemma ingest_mu:
  "generate_from_file genfromtxt_sample sample_files init [''mu.dat''] = (None, mu_store)"
  by (simp add: sample_files_def parse_mu readline_mu init_def mu_store_def del: One_nat_def)

lemma ingest_gap:
  "generate_from_file genfromtxt_sample sample_files init [''gap.dat'']
     = (None, \<lparr>heap = [float_array [2, 2] [1, 2, 3, 4]], samples = [(''tau'' @ [NL], 0)]\<rparr>)"
  by (simp add: sample_files_def parse_gap readline_gap init_def del: One_nat_def)

lemma ingest_var:
  "generate_from_file genfromtxt_sample sample_files init [''var.dat''] = (None, var_store)"
  by (simp add: sample_files_def parse_var readline_var init_def var_store_def
           del: One_nat_def)

text \<open>
  Claim C5. The name of a source is its header line as \<open>readline\<close> returns it.
  When that name is already a key, ingesting the source leaves the whole store as it
  was, whatever the source holds; when it is not, and the parser returns a matrix, the
  matrix is stored under it and no exception is raised; and a trace that is stored is
  still the trace of its name after the source and any further sources.
\<close>

theorem first_write_wins:
  assumes "wf self" and "files fname = Some content"
  shows "(map_of (samples self) (readline content) \<noteq> None \<longrightarrow>
            snd (generate_from_file genfromtxt files self [fname]) = self)
       \<and> (map_of (samples self) (readline content) = None \<and> genfromtxt content 1 = Inr trace \<longrightarrow>
            fst (generate_from_file genfromtxt files self [fname]) = None \<and>
            trace_of (snd (generate_from_file genfromtxt files self [fname])) (readline content)
              = Some trace)
       \<and> (\<forall>name t. trace_of self name = Some t \<longrightarrow>
            trace_of (snd (generate_from_file genfromtxt files self (fname # later))) name
              = Some t)"
proof (intro conjI impI allI)
  assume "map_of (samples self) (readline content) \<noteq> None"
  with assms(2) show "snd (generate_from_file genfromtxt files self [fname]) = self"
    by (auto split: sum.splits)
next
  assume new: "map_of (samples self) (readline content) = None \<and> genfromtxt content 1 = Inr trace"
  with assms(2) show "fst (generate_from_file genfromtxt files self [fname]) = None"
    by simp
  from new assms(2)
  show "trace_of (snd (generate_from_file genfromtxt files self [fname])) (readline content)
          = Some trace"
    by (simp add: trace_of_def map_of_setitem)
next
  fix name t
  assume "trace_of self name = Some t"
  with generate_from_file_keeps [OF _ assms(1) this]
  show "trace_of (snd (generate_from_file genfromtxt files self (fname # later))) name = Some t"
    by (metis prod.collapse)
qed

theorem first_write_wins_witness:
  "wf init \<and> wf mu_store
   \<and> sample_files ''mu.dat'' = Some mu_txt \<and> sample_files ''mu_again.dat'' = Some mu_again_txt
   \<and> map_of (samples init) (readline mu_txt) = None
   \<and> genfromtxt_sample mu_txt 1 = Inr (float_array [2, 2] [1, 2, 3, 4])
   \<and> trace_of (snd (generate_from_file genfromtxt_sample sample_files init [''mu.dat'']))
        (readline mu_txt) = Some (float_array [2, 2] [1, 2, 3, 4])
   \<and> map_of (samples mu_store) (readline mu_again_txt) \<noteq> None
   \<and> snd (generate_from_file genfromtxt_sample sample_files mu_store [''mu_again.dat''])
        = mu_store
   \<and> trace_of mu_store (''mu'' @ [NL]) = Some (float_array [2, 2] [1, 2, 3, 4])
   \<and> trace_of (snd (generate_from_file genfromtxt_sample sample_files mu_store
                      [''mu_again.dat'', ''gap.dat''])) (''mu'' @ [NL])
        = Some (float_array [2, 2] [1, 2, 3, 4])"
proof -
  have w1: "wf mu_store"
    by (simp add: wf_def mu_store_def)
  have f0: "sample_files ''mu.dat'' = Some mu_txt"
    by (simp add: sample_files_def)
  have f1: "sample_files ''mu_again.dat'' = Some mu_again_txt"
    by (simp add: sample_files_def)
  have absent: "map_of (samples init) (readline mu_txt) = None"
    by (simp add: init_def)
  have present: "map_of (samples mu_store) (readline mu_again_txt) \<noteq> None"
    by (simp add: mu_store_def readline_mu_again)
  have held: "trace_of mu_store (''mu'' @ [NL]) = Some (float_array [2, 2] [1, 2, 3, 4])"
    by (simp add: trace_of_def mu_store_def)
  note new = first_write_wins [where self = init and files = sample_files
      and fname = "''mu.dat''" and content = mu_txt and genfromtxt = genfromtxt_sample
      and trace = "float_array [2, 2] [1, 2, 3, 4]" and later = "[]", OF wf_init f0]
  note old = first_write_wins [where self = mu_store and files = sample_files
      and fname = "''mu_again.dat''" and content = mu_again_txt
      and genfromtxt = genfromtxt_sample
      and trace = "float_array [2, 2] [5, 6, 7, 8]" and later = "[''gap.dat'']", OF w1 f1]
  from new absent parse_mu
  have a: "trace_of (snd (generate_from_file genfromtxt_sample sample_files init [''mu.dat'']))
        (readline mu_txt) = Some (float_array [2, 2] [1, 2, 3, 4])"
    by blast
  from old present
  have b: "snd (generate_from_file genfromtxt_sample sample_files mu_store [''mu_again.dat''])
        = mu_store"
    by blast
  from old held
  have c: "trace_of (snd (generate_from_file genfromtxt_sample sample_files mu_store
                      [''mu_again.dat'', ''gap.dat''])) (''mu'' @ [NL])
        = Some (float_array [2, 2] [1, 2, 3, 4])"
    by blast
  from wf_init w1 f0 f1 absent parse_mu a present b held c show ?thesis
    by blast
qed

text \<open>
  Claim C7, as the code has it. \<open>generate_from_file\<close> checks nothing itself (the
  comment of line 64 leaves the exceptions to be done): a source fails when numpy's
  parser raises, with the parser's exception, and then the store is what the sources
  before it made it, and the sources after it are not read; when every file opens and
  parses, no exception is raised, whatever the rows are.
\<close>

theorem ingestion_fails_as_the_parser_does:
  "(generate_from_file genfromtxt files self before = (None, mid)
      \<and> files fname = Some content \<and> genfromtxt content 1 = Inl e \<longrightarrow>
    generate_from_file genfromtxt files self (before @ fname # later) = (Some e, mid))
   \<and> ((\<forall>f \<in> set fnames. \<exists>content trace.
           files f = Some content \<and> genfromtxt content 1 = Inr trace) \<longrightarrow>
       fst (generate_from_file genfromtxt files self fnames) = None)"
  by (simp add: generate_from_file_append generate_from_file_succeeds)

theorem ingestion_fails_as_the_parser_does_witness:
  "generate_from_file genfromtxt_sample sample_files init [''mu.dat''] = (None, mu_store)
   \<and> sample_files ''ragged.dat'' = Some ragged_txt
   \<and> genfromtxt_sample ragged_txt 1 = Inl ValueError
   \<and> generate_from_file genfromtxt_sample sample_files init
        [''mu.dat'', ''ragged.dat'', ''var.dat''] = (Some ValueError, mu_store)
   \<and> sample_files ''gap.dat'' = Some gap_txt
   \<and> genfromtxt_sample gap_txt 1 = Inr (float_array [2, 2] [1, 2, 3, 4])
   \<and> fst (generate_from_file genfromtxt_sample sample_files init [''gap.dat'']) = None"
proof -
  have ragged: "sample_files ''ragged.dat'' = Some ragged_txt"
    by (simp add: sample_files_def)
  have gap: "sample_files ''gap.dat'' = Some gap_txt"
    by (simp add: sample_files_def)
  have all: "\<forall>f \<in> set [''gap.dat'']. \<exists>content trace.
           sample_files f = Some content \<and> genfromtxt_sample content 1 = Inr trace"
    using gap parse_gap by simp
  note both = ingestion_fails_as_the_parser_does [where files = sample_files
      and genfromtxt = genfromtxt_sample and self = init and before = "[''mu.dat'']"
      and mid = mu_store and fname = "''ragged.dat''" and content = ragged_txt
      and e = ValueError and later = "[''var.dat'']" and fnames = "[''gap.dat'']"]
  from both ingest_mu ragged parse_ragged
  have fails: "generate_from_file genfromtxt_sample sample_files init
        ([''mu.dat''] @ ''ragged.dat'' # [''var.dat'']) = (Some ValueError, mu_store)"
    by blast
  from both all
  have "fst (generate_from_file genfromtxt_sample sample_files init [''gap.dat'']) = None"
    by blast
  with fails ingest_mu ragged parse_ragged gap parse_gap show ?thesis
    by simp
qed

text \<open>
  The claim as the specification words it fails on a source with a blank row: the third
  sample file has an empty line between its two rows, numpy skips it, and the two rows
  are stored with no exception.
\<close>

theorem blank_row_is_ingested:
  "gap_txt = ''tau'' @ [NL] @ ''1 2'' @ [NL] @ [NL] @ ''3 4'' @ [NL]
   \<and> generate_from_file genfromtxt_sample sample_files init [''gap.dat'']
     = (None, \<lparr>heap = [float_array [2, 2] [1, 2, 3, 4]], samples = [(''tau'' @ [NL], 0)]\<rparr>)"
  using ingest_gap by (simp add: gap_txt_def)

subsection \<open>Reading a trace\<close>

text \<open>
  Claim C6. For a stored name \<open>get_samples\<close> returns a new object \<open>b\<close>: it is
  not the stored object \<open>a\<close> and no name of the store holds it, its contents are
  those of the stored array, and the dictionary and every stored trace are as before.
  Whatever the caller then writes into \<open>b\<close>, the next \<open>get_samples\<close> returns
  yet another object \<open>c\<close> with the contents of the stored array, and the store is
  still as before.
\<close>

theorem get_samples_copies:
  assumes "wf self" and "map_of (samples self) name = Some a"
  shows "\<exists>b s1. get_samples self name = (Inr b, s1)
           \<and> b \<noteq> a \<and> b \<notin> snd ` set (samples s1)
           \<and> heap s1 ! b = heap self ! a
           \<and> samples s1 = samples self
           \<and> (\<forall>k. trace_of s1 k = trace_of self k)
           \<and> (\<forall>v. \<exists>c s2. get_samples (mutate s1 b v) name = (Inr c, s2)
                  \<and> c \<noteq> b \<and> heap s2 ! c = heap self ! a \<and> heap s2 ! b = v
                  \<and> (\<forall>k. trace_of s2 k = trace_of self k))"
proof -
  let ?b = "length (heap self)"
  let ?s1 = "self\<lparr>heap := heap self @ [heap self ! a]\<rparr>"
  have bound: "\<And>k c. map_of (samples self) k = Some c \<Longrightarrow> c < ?b"
    using assms(1) wf_lookup by blast
  have got: "get_samples self name = (Inr ?b, ?s1)"
    using assms(2) by (simp add: get_samples_def)
  have fresh: "?b \<notin> snd ` set (samples ?s1)"
    using assms(1) by (auto simp: wf_def list_all_iff)
  have same: "trace_of ?s1 k = trace_of self k" for k
    using bound [of k] by (cases "map_of (samples self) k") (auto simp: trace_of_def nth_append)
  have again: "\<exists>c s2. get_samples (mutate ?s1 ?b v) name = (Inr c, s2)
                  \<and> c \<noteq> ?b \<and> heap s2 ! c = heap self ! a \<and> heap s2 ! ?b = v
                  \<and> (\<forall>k. trace_of s2 k = trace_of self k)" for v
  proof -
    let ?m = "mutate ?s1 ?b v"
    let ?s2 = "?m\<lparr>heap := heap ?m @ [heap ?m ! a]\<rparr>"
    have stored: "heap ?m ! a = heap self ! a"
      using bound [OF assms(2)] by (simp add: mutate_def nth_append)
    have "get_samples ?m name = (Inr (Suc ?b), ?s2)"
      using assms(2) by (simp add: get_samples_def mutate_def)
    moreover have "heap ?s2 ! Suc ?b = heap self ! a"
      using stored by (simp add: mutate_def nth_append)
    moreover have "heap ?s2 ! ?b = v"
      by (simp add: mutate_def nth_append)
    moreover have "trace_of ?s2 k = trace_of self k" for k
      using bound [of k] by (cases "map_of (samples self) k")
        (auto simp: trace_of_def mutate_def nth_append)
    ultimately show ?thesis by auto
  qed
  from got fresh same again bound [OF assms(2)] show ?thesis
    by (intro exI [of _ ?b] exI [of _ ?s1]) (simp add: nth_append)
qed

theorem get_samples_copies_witness:
  "wf two_by_two \<and> map_of (samples two_by_two) ''mu'' = Some 0
   \<and> get_samples two_by_two ''mu''
       = (Inr 1, \<lparr>heap = [float_array [2, 2] [1, 2, 3, 4], float_array [2, 2] [1, 2, 3, 4]],
                  samples = [(''mu'', 0)]\<rparr>)
   \<and> (\<exists>b s1. get_samples two_by_two ''mu'' = (Inr b, s1) \<and> b \<noteq> 0
         \<and> heap s1 ! b = heap two_by_two ! 0
         \<and> (\<exists>c s2. get_samples (mutate s1 b (float_array [2, 2] [9, 9, 9, 9])) ''mu''
                      = (Inr c, s2)
               \<and> c \<noteq> b \<and> heap s2 ! c = heap two_by_two ! 0))"
proof -
  have w: "wf two_by_two"
    by (simp add: wf_def two_by_two_def)
  have stored: "map_of (samples two_by_two) ''mu'' = Some 0"
    by (simp add: two_by_two_def)
  have got: "get_samples two_by_two ''mu''
       = (Inr 1, \<lparr>heap = [float_array [2, 2] [1, 2, 3, 4], float_array [2, 2] [1, 2, 3, 4]],
                  samples = [(''mu'', 0)]\<rparr>)"
    by (simp add: get_samples_def two_by_two_def)
  from get_samples_copies [OF w stored] obtain b s1 where
    "get_samples two_by_two ''mu'' = (Inr b, s1)" "b \<noteq> 0" "heap s1 ! b = heap two_by_two ! 0"
    "\<forall>v. \<exists>c s2. get_samples (mutate s1 b v) ''mu'' = (Inr c, s2)
                  \<and> c \<noteq> b \<and> heap s2 ! c = heap two_by_two ! 0 \<and> heap s2 ! b = v
                  \<and> (\<forall>k. trace_of s2 k = trace_of two_by_two k)"
    by blast
  then have "\<exists>b s1. get_samples two_by_two ''mu'' = (Inr b, s1) \<and> b \<noteq> 0
         \<and> heap s1 ! b = heap two_by_two ! 0
         \<and> (\<exists>c s2. get_samples (mutate s1 b (float_array [2, 2] [9, 9, 9, 9])) ''mu''
                      = (Inr c, s2)
               \<and> c \<noteq> b \<and> heap s2 ! c = heap two_by_two ! 0)"
    by blast
  with w stored got show ?thesis by blast
qed

subsection \<open>The header line as the name\<close>

lemma generate_from_file_keys:
  "\<forall>f \<in> set fnames. \<forall>content. files f = Some content \<longrightarrow> NL \<in> set content \<Longrightarrow>
   \<forall>k a. map_of (samples self) k = Some a \<longrightarrow> k \<noteq> [] \<and> last k = NL \<Longrightarrow>
   map_of (samples (snd (generate_from_file genfromtxt files self fnames))) k = Some a \<Longrightarrow>
   k \<noteq> [] \<and> last k = NL"
proof (induction fnames arbitrary: self)
  case Nil
  then show ?case by simp
next
  case (Cons fname fnames)
  show ?case
  proof (cases "files fname")
    case None
    with Cons.prems show ?thesis by simp
  next
    case (Some content)
    then have nl: "NL \<in> set content"
      using Cons.prems(1) by simp
    show ?thesis
    proof (cases "genfromtxt content 1")
      case (Inl e)
      with Some Cons.prems show ?thesis by simp
    next
      case (Inr trace)
      let ?next = "if map_of (samples self) (readline content) = None
                  then self\<lparr>heap := heap self @ [trace],
                            samples := setitem (readline content) (length (heap self))
                                         (samples self)\<rparr>
                  else self"
      have inv: "\<forall>k a. map_of (samples ?next) k = Some a \<longrightarrow> k \<noteq> [] \<and> last k = NL"
        using Cons.prems(2) last_readline [OF nl] by (simp add: map_of_setitem)
      have rest: "\<forall>f \<in> set fnames. \<forall>content. files f = Some content \<longrightarrow> NL \<in> set content"
        using Cons.prems(1) by simp
      have "map_of (samples (snd (generate_from_file genfromtxt files ?next fnames))) k = Some a"
        using Cons.prems(3) Some Inr by simp
      from Cons.IH [OF rest inv this] show ?thesis .
    qed
  qed
qed

lemma generate_from_file_stores:
  "generate_from_file genfromtxt files self fnames = (None, self') \<Longrightarrow>
   (fname \<in> set fnames \<and> files fname = Some content)
     \<or> map_of (samples self) (readline content) \<noteq> None \<Longrightarrow>
   map_of (samples self') (readline content) \<noteq> None"
proof (induction fnames arbitrary: self)
  case Nil
  then show ?case by simp
next
  case (Cons f fnames)
  from Cons.prems(1) obtain t tr where f: "files f = Some t" "genfromtxt t 1 = Inr tr"
    by (auto split: option.splits sum.splits)
  let ?next = "if map_of (samples self) (readline t) = None
                  then self\<lparr>heap := heap self @ [tr],
                            samples := setitem (readline t) (length (heap self)) (samples self)\<rparr>
                  else self"
  have run: "generate_from_file genfromtxt files ?next fnames = (None, self')"
    using Cons.prems(1) f by simp
  have "(fname \<in> set fnames \<and> files fname = Some content)
          \<or> map_of (samples ?next) (readline content) \<noteq> None"
    using Cons.prems(2) f by (auto simp: map_of_setitem)
  from Cons.IH [OF run this] show ?case .
qed

text \<open>
  Claim C9. Take files whose first line ends with a line terminator, among them one
  whose first line is \<open>name\<close> followed by the terminator, and ingest them into a new
  store. Ingested alone, the file's trace is stored under \<open>name\<close> with the newline
  and nothing is stored under \<open>name\<close>; after the whole list, \<open>get_samples\<close> on the
  bare \<open>name\<close> raises \<open>KeyError\<close>, and when no file failed, the name with the
  newline is a key.
\<close>

theorem header_newline_is_part_of_the_name:
  assumes "\<forall>f \<in> set fnames. \<forall>content. files f = Some content \<longrightarrow> NL \<in> set content"
    and "fname \<in> set fnames" and "files fname = Some (name @ NL # body)"
    and "NL \<notin> set name"
    and "genfromtxt (name @ NL # body) 1 = Inr trace"
  shows "trace_of (snd (generate_from_file genfromtxt files init [fname])) (name @ [NL])
           = Some trace
       \<and> trace_of (snd (generate_from_file genfromtxt files init [fname])) name = None
       \<and> fst (get_samples (snd (generate_from_file genfromtxt files init fnames)) name)
           = Inl (KeyError name)
       \<and> (fst (generate_from_file genfromtxt files init fnames) = None \<longrightarrow>
            trace_of (snd (generate_from_file genfromtxt files init fnames)) (name @ [NL])
              \<noteq> None)"
proof -
  let ?after = "snd (generate_from_file genfromtxt files init fnames)"
  have first:
    "trace_of (snd (generate_from_file genfromtxt files init [fname])) (name @ [NL]) = Some trace"
    using assms(3,4,5) by (simp add: readline_header trace_of_def init_def)
  have bare_alone:
    "trace_of (snd (generate_from_file genfromtxt files init [fname])) name = None"
    using assms(3,4,5) by (simp add: readline_header trace_of_def init_def)
  have "\<not> (name \<noteq> [] \<and> last name = NL)"
    using assms(4) by (cases name rule: rev_cases) auto
  moreover have "name \<noteq> [] \<and> last name = NL" if "map_of (samples ?after) name = Some a" for a
    by (rule generate_from_file_keys [OF assms(1) _ that]) (simp add: init_def)
  ultimately have "map_of (samples ?after) name = None"
    by (cases "map_of (samples ?after) name") auto
  then have bare: "fst (get_samples ?after name) = Inl (KeyError name)"
    by (simp add: get_samples_def)
  have "trace_of ?after (name @ [NL]) \<noteq> None"
    if "fst (generate_from_file genfromtxt files init fnames) = None"
  proof -
    from that have "generate_from_file genfromtxt files init fnames = (None, ?after)"
      by (metis prod.collapse)
    from generate_from_file_stores [OF this, of fname "name @ NL # body"] assms(2,3,4)
    show ?thesis by (simp add: readline_header trace_of_def)
  qed
  with first bare_alone bare show ?thesis by blast
qed

theorem header_newline_is_part_of_the_name_witness:
  "sample_files ''gap.dat'' = Some gap_txt \<and> NL \<in> set gap_txt
   \<and> sample_files ''mu.dat'' = Some (''mu'' @ NL # (''1 2'' @ [NL] @ ''3 4'' @ [NL]))
   \<and> NL \<notin> set ''mu''
   \<and> genfromtxt_sample (''mu'' @ NL # (''1 2'' @ [NL] @ ''3 4'' @ [NL])) 1
       = Inr (float_array [2, 2] [1, 2, 3, 4])
   \<and> trace_of (snd (generate_from_file genfromtxt_sample sample_files init [''mu.dat'']))
        (''mu'' @ [NL]) = Some (float_array [2, 2] [1, 2, 3, 4])
   \<and> fst (get_samples (snd (generate_from_file genfromtxt_sample sample_files init
                               [''mu.dat'', ''gap.dat''])) ''mu'')
       = Inl (KeyError ''mu'')"
proof -
  have terminated: "\<forall>f \<in> set [''mu.dat'', ''gap.dat'']. \<forall>content.
       sample_files f = Some content \<longrightarrow> NL \<in> set content"
    by (simp add: sample_files_def mu_txt_def gap_txt_def)
  have listed: "''mu.dat'' \<in> set [''mu.dat'', ''gap.dat'']"
    by simp
  have opened: "sample_files ''mu.dat'' = Some (''mu'' @ NL # (''1 2'' @ [NL] @ ''3 4'' @ [NL]))"
    by (simp add: sample_files_def mu_txt_def)
  have bare: "NL \<notin> set ''mu''"
    by simp
  have parsed: "genfromtxt_sample (''mu'' @ NL # (''1 2'' @ [NL] @ ''3 4'' @ [NL])) 1
       = Inr (float_array [2, 2] [1, 2, 3, 4])"
    using parse_mu by (simp add: mu_txt_def)
  from header_newline_is_part_of_the_name [where files = sample_files
      and genfromtxt = genfromtxt_sample, OF terminated listed opened bare parsed]
    opened bare parsed
  show ?thesis by (simp add: sample_files_def gap_txt_def)
qed

subsection \<open>One-dimensional traces\<close>

lemma autocorr_timescale_one_dim:
  "ndim trace = 1 \<Longrightarrow> autocorr_timescale acor trace = Inl IndexError"
  by (simp add: autocorr_timescale_def shape_at_def ndim_def)

lemma effective_samples_one_dim:
  assumes "map_of (samples self) name = Some a" and "ndim (heap self ! a) = 1"
  shows "snd (effective_samples acor self name) = Inl IndexError"
  using assms autocorr_timescale_one_dim [OF assms(2), of acor]
  by (simp add: effective_samples_def shape_at_def ndim_def Let_def)

lemma posterior_summaries_one_dim:
  assumes "map_of (samples self) name = Some a" and "ndim (heap self ! a) = 1"
  shows "posterior_summaries acor stats self name = Inl IndexError"
  using assms(1) effective_samples_one_dim [OF assms, of acor]
  by (simp add: posterior_summaries_def)

text \<open>
  The block of \<open>posterior_summaries\<close> under \<open>if traces.ndim == 1\<close> is never run:
  for a one-dimensional trace \<open>effective_samples\<close> has raised before the test.
\<close>

lemma summary_loop_elements:
  "summary_loop stats traces eff is out = Inr out' \<Longrightarrow>
     Scalar_summary e r \<notin> set out \<Longrightarrow> Scalar_summary e r \<notin> set out'"
  by (induction "is" arbitrary: out) (auto split: option.splits if_splits)

lemma scalar_branch_unreachable:
  assumes "posterior_summaries acor stats self name = Inr out"
  shows "Scalar_summary e r \<notin> set out"
proof (cases "map_of (samples self) name")
  case None
  with assms show ?thesis by (simp add: posterior_summaries_def)
next
  case (Some a)
  show ?thesis
  proof (cases "ndim (heap self ! a) = 1")
    case True
    from posterior_summaries_one_dim [OF Some True, of acor stats] assms show ?thesis
      by simp
  next
    case False
    with Some assms show ?thesis
      by (auto simp: posterior_summaries_def Let_def split: sum.splits if_splits
               dest: summary_loop_elements)
  qed
qed

text \<open>\<open>newaxis\<close> never raises, and turns a trace of shape \<open>(n)\<close> into \<open>(n, 1)\<close>.\<close>

lemma newaxis_loop_normalizes:
  "newaxis_loop self ks = Inr self' \<Longrightarrow> wf self \<Longrightarrow> map_of (samples self) name = Some a \<Longrightarrow>
   (shape (heap self ! a) = [n] \<and> name \<in> set ks) \<or> shape (heap self ! a) = [n, 1] \<Longrightarrow>
   flat (heap self ! a) = xs \<Longrightarrow>
   \<exists>t. trace_of self' name = Some t \<and> shape t = [n, 1] \<and> flat t = xs"
proof (induction ks arbitrary: self a)
  case Nil
  then show ?case by (auto simp: trace_of_def)
next
  case (Cons key keys)
  from Cons.prems(1) obtain a' where a': "map_of (samples self) key = Some a'"
    by (auto split: option.splits)
  let ?next = "if length (shape (heap self ! a')) = 1
             then self\<lparr>heap := heap self @
                                  [(heap self ! a')\<lparr>shape := shape (heap self ! a') @ [1]\<rparr>],
                       samples := setitem key (length (heap self)) (samples self)\<rparr>
             else self"
  have run: "newaxis_loop ?next keys = Inr self'"
    using Cons.prems(1) a' by simp
  have wf_next: "wf ?next"
    using Cons.prems(2) by (simp add: wf_store)
  have bound: "a < length (heap self)"
    using Cons.prems(2,3) wf_lookup by blast
  show ?case
  proof (cases "key = name")
    case True
    then have same: "a' = a"
      using a' Cons.prems(3) by simp
    let ?b = "if length (shape (heap self ! a)) = 1 then length (heap self) else a"
    have held: "map_of (samples ?next) name = Some ?b"
      using True same Cons.prems(3) by (simp add: map_of_setitem)
    have shaped: "(shape (heap ?next ! ?b) = [n] \<and> name \<in> set keys)
                    \<or> shape (heap ?next ! ?b) = [n, 1]"
      using Cons.prems(4) same by auto
    have elems: "flat (heap ?next ! ?b) = xs"
      using Cons.prems(5) same by auto
    from Cons.IH [OF run wf_next held shaped elems] show ?thesis .
  next
    case False
    have held: "map_of (samples ?next) name = Some a"
      using False Cons.prems(3) by (simp add: map_of_setitem)
    have kept: "heap ?next ! a = heap self ! a"
      using bound by (simp add: nth_append)
    have shaped: "(shape (heap ?next ! a) = [n] \<and> name \<in> set keys)
                    \<or> shape (heap ?next ! a) = [n, 1]"
      using Cons.prems(4) False kept by auto
    have elems: "flat (heap ?next ! a) = xs"
      using Cons.prems(5) kept by simp
    from Cons.IH [OF run wf_next held shaped elems] show ?thesis .
  qed
qed

lemma newaxis_loop_succeeds:
  "set ks \<subseteq> fst ` set (samples self) \<Longrightarrow> \<exists>self'. newaxis_loop self ks = Inr self'"
proof (induction ks arbitrary: self)
  case Nil
  then show ?case by simp
next
  case (Cons key keys)
  then obtain a where a: "map_of (samples self) key = Some a"
    by (cases "map_of (samples self) key") (auto simp: map_of_eq_None_iff)
  let ?next = "if length (shape (heap self ! a)) = 1
             then self\<lparr>heap := heap self @
                                  [(heap self ! a)\<lparr>shape := shape (heap self ! a) @ [1]\<rparr>],
                       samples := setitem key (length (heap self)) (samples self)\<rparr>
             else self"
  have "set keys \<subseteq> fst ` set (samples ?next)"
    using Cons.prems by (auto simp: keys_setitem)
  from Cons.IH [OF this] a show ?case by simp
qed

lemma newaxis_succeeds: "\<exists>self'. newaxis self = Inr self'"
  unfolding newaxis_def by (rule newaxis_loop_succeeds) simp

lemma newaxis_normalizes:
  assumes "newaxis self = Inr self'" and "wf self"
    and "map_of (samples self) name = Some a" and "shape (heap self ! a) = [n]"
  shows "\<exists>t. trace_of self' name = Some t \<and> shape t = [n, 1] \<and> flat t = flat (heap self ! a)"
proof -
  have run: "newaxis_loop self (map fst (samples self)) = Inr self'"
    using assms(1) by (simp add: newaxis_def)
  have "name \<in> set (map fst (samples self))"
    using assms(3) by (force dest: map_of_SomeD)
  with assms(4)
  have "(shape (heap self ! a) = [n] \<and> name \<in> set (map fst (samples self)))
        \<or> shape (heap self ! a) = [n, 1]"
    by simp
  from newaxis_loop_normalizes [OF run assms(2,3) this refl] show ?thesis .
qed

text \<open>
  Claim C10. For a stored trace that is a one-dimensional array,
  \<open>autocorr_timescale\<close>, \<open>effective_samples\<close> and \<open>posterior_summaries\<close> raise
  \<open>IndexError\<close> (from \<open>trace.shape[1]\<close>, before the estimator is called and
  before \<open>posterior_summaries\<close> tests \<open>traces.ndim\<close>); \<open>newaxis\<close> succeeds on
  the store and leaves the trace two-dimensional, of shape \<open>(n, 1)\<close>, over the same
  elements.
\<close>

theorem one_dimensional_trace_raises_IndexError:
  assumes "wf self" and "map_of (samples self) name = Some a" and "ndim (heap self ! a) = 1"
  shows "autocorr_timescale acor (heap self ! a) = Inl IndexError
       \<and> snd (effective_samples acor self name) = Inl IndexError
       \<and> posterior_summaries acor stats self name = Inl IndexError
       \<and> (\<exists>self' t. newaxis self = Inr self' \<and> trace_of self' name = Some t \<and> ndim t = 2
             \<and> shape t = shape (heap self ! a) @ [1] \<and> flat t = flat (heap self ! a))"
proof -
  note raises = autocorr_timescale_one_dim [OF assms(3), of acor]
    effective_samples_one_dim [OF assms(2,3), of acor]
    posterior_summaries_one_dim [OF assms(2,3), of acor stats]
  obtain n where n: "shape (heap self ! a) = [n]"
    using assms(3) by (cases "shape (heap self ! a)") (auto simp: ndim_def)
  obtain self' where normalized: "newaxis self = Inr self'"
    using newaxis_succeeds by blast
  from newaxis_normalizes [OF normalized assms(1,2) n] obtain t where
    "trace_of self' name = Some t" "shape t = [n, 1]" "flat t = flat (heap self ! a)"
    by blast
  with normalized n
  have "\<exists>self' t. newaxis self = Inr self' \<and> trace_of self' name = Some t \<and> ndim t = 2
             \<and> shape t = shape (heap self ! a) @ [1] \<and> flat t = flat (heap self ! a)"
    by (auto simp: ndim_def)
  with raises show ?thesis by blast
qed

theorem one_dimensional_trace_raises_IndexError_witness:
  "generate_from_file genfromtxt_sample sample_files init [''var.dat''] = (None, var_store)
   \<and> wf var_store \<and> map_of (samples var_store) (''var'' @ [NL]) = Some 0
   \<and> ndim (heap var_store ! 0) = 1
   \<and> autocorr_timescale acor_unit (heap var_store ! 0) = Inl IndexError
   \<and> snd (effective_samples acor_unit var_store (''var'' @ [NL])) = Inl IndexError
   \<and> posterior_summaries acor_unit (\<lambda>a. ()) var_store (''var'' @ [NL]) = Inl IndexError"
proof -
  have w: "wf var_store"
    by (simp add: wf_def var_store_def)
  have stored: "map_of (samples var_store) (''var'' @ [NL]) = Some 0"
    by (simp add: var_store_def)
  have flat_trace: "ndim (heap var_store ! 0) = 1"
    by (simp add: var_store_def ndim_def float_array_def)
  from one_dimensional_trace_raises_IndexError [OF w stored flat_trace, of acor_unit "\<lambda>a. ()"]
    ingest_var w stored flat_trace
  show ?thesis by blast
qed

subsection \<open>Contour levels\<close>

lemma sign_transfer:
  fixes a b c :: real
  shows "a * c > 0 \<Longrightarrow> b * c < 0 \<Longrightarrow> a * b < 0"
  by (auto simp: zero_less_mult_iff mult_less_0_iff)

lemma bisect_loop_contract:
  "bisect_loop f fa xa dm n = Inr x \<Longrightarrow> f xa * fa > 0 \<Longrightarrow> f (xa + dm) * fa < 0 \<Longrightarrow>
   min xa (xa + dm) \<le> x \<and> x \<le> max xa (xa + dm) \<and>
   (f x = 0 \<or> (\<exists>y. min xa (xa + dm) \<le> y \<and> y \<le> max xa (xa + dm) \<and>
                   \<bar>y - x\<bar> < xtol + rtol * \<bar>x\<bar> \<and> f x * f y < 0))"
proof (induction n arbitrary: xa dm)
  case 0
  then show ?case by simp
next
  case (Suc n)
  let ?xm = "xa + dm * (1/2)"
  have inside: "min xa (xa + dm) \<le> ?xm \<and> ?xm \<le> max xa (xa + dm)"
    by (cases "dm \<ge> 0") (auto simp: min_def max_def)
  show ?case
  proof (cases "f ?xm = 0 \<or> \<bar>dm * (1/2)\<bar> < xtol + rtol * \<bar>?xm\<bar>")
    case True
    with Suc.prems(1) have x: "x = ?xm" by simp
    show ?thesis
    proof (cases "f ?xm = 0")
      case True
      with x inside show ?thesis by simp
    next
      case False
      with True have tol: "\<bar>dm * (1/2)\<bar> < xtol + rtol * \<bar>?xm\<bar>" by simp
      have "fa \<noteq> 0" using Suc.prems(2) by auto
      with False have "f ?xm * fa > 0 \<or> f ?xm * fa < 0"
        by (auto simp: zero_less_mult_iff mult_less_0_iff)
      then show ?thesis
      proof
        assume pos: "f ?xm * fa > 0"
        have "f ?xm * f (xa + dm) < 0"
          using sign_transfer [OF pos Suc.prems(3)] .
        moreover have "\<bar>(xa + dm) - ?xm\<bar> = \<bar>dm * (1/2)\<bar>" by simp
        ultimately show ?thesis
          using x inside tol
          by (intro conjI disjI2 exI [of _ "xa + dm"]) (auto simp: min_def max_def)
      next
        assume neg: "f ?xm * fa < 0"
        have "f xa * f ?xm < 0"
          using sign_transfer [OF Suc.prems(2) neg] .
        then have "f ?xm * f xa < 0" by (simp add: mult.commute)
        moreover have "\<bar>xa - ?xm\<bar> = \<bar>dm * (1/2)\<bar>" by simp
        ultimately show ?thesis
          using x inside tol
          by (intro conjI disjI2 exI [of _ xa]) (auto simp: min_def max_def)
      qed
    qed
  next
    case False
    let ?xa' = "if f ?xm * fa \<ge> 0 then ?xm else xa"
    from False Suc.prems(1)
    have run: "bisect_loop f fa ?xa' (dm * (1/2)) n = Inr x" by simp
    have nz: "f ?xm \<noteq> 0" using False by simp
    have fa: "fa \<noteq> 0" using Suc.prems(2) by auto
    have step: "f ?xa' * fa > 0 \<and> f (?xa' + dm * (1/2)) * fa < 0"
    proof (cases "f ?xm * fa \<ge> 0")
      case True
      moreover have "f ?xm * fa \<noteq> 0" using nz fa by simp
      ultimately have "f ?xm * fa > 0" by linarith
      moreover have "?xm + dm * (1/2) = xa + dm" by simp
      ultimately show ?thesis using True Suc.prems(3) by (simp only: if_True)
    next
      case False
      with Suc.prems(2) show ?thesis by simp
    qed
    then have lo: "f ?xa' * fa > 0" and hi: "f (?xa' + dm * (1/2)) * fa < 0"
      by blast+
    have sub: "min xa (xa + dm) \<le> min ?xa' (?xa' + dm * (1/2))
             \<and> max ?xa' (?xa' + dm * (1/2)) \<le> max xa (xa + dm)"
      by (cases "dm \<ge> 0") (auto simp: min_def max_def)
    from Suc.IH [OF run lo hi]
    have below: "min ?xa' (?xa' + dm * (1/2)) \<le> x"
      and above: "x \<le> max ?xa' (?xa' + dm * (1/2))"
      and found: "f x = 0 \<or> (\<exists>y. min ?xa' (?xa' + dm * (1/2)) \<le> y
                   \<and> y \<le> max ?xa' (?xa' + dm * (1/2))
                   \<and> \<bar>y - x\<bar> < xtol + rtol * \<bar>x\<bar> \<and> f x * f y < 0)"
      by blast+
    have x_in: "min xa (xa + dm) \<le> x \<and> x \<le> max xa (xa + dm)"
      using below above sub by linarith
    from found show ?thesis
    proof
      assume "f x = 0"
      with x_in show ?thesis by blast
    next
      assume "\<exists>y. min ?xa' (?xa' + dm * (1/2)) \<le> y
                   \<and> y \<le> max ?xa' (?xa' + dm * (1/2))
                   \<and> \<bar>y - x\<bar> < xtol + rtol * \<bar>x\<bar> \<and> f x * f y < 0"
      then obtain y where y: "min ?xa' (?xa' + dm * (1/2)) \<le> y"
        "y \<le> max ?xa' (?xa' + dm * (1/2))"
        "\<bar>y - x\<bar> < xtol + rtol * \<bar>x\<bar>" "f x * f y < 0"
        by blast
      have "min xa (xa + dm) \<le> y \<and> y \<le> max xa (xa + dm)"
        using y(1,2) sub by linarith
      with y(3,4) x_in show ?thesis by blast
    qed
  qed
qed

lemma bisect_meets_contract: "bisection_contract bisect"
  unfolding bisection_contract_def
proof (intro allI conjI impI)
  fix g :: "real \<Rightarrow> real" and a b :: real
  assume "g a * g b > 0"
  then show "bisect g a b = Inl ValueError"
    by (auto simp: bisect_def zero_less_mult_iff)
next
  fix g :: "real \<Rightarrow> real" and a b x :: real
  assume r: "bisect g a b = Inr x"
  consider "g a = 0" | "g a \<noteq> 0" "g b = 0" | "g a \<noteq> 0" "g b \<noteq> 0" by blast
  then have "min a b \<le> x \<and> x \<le> max a b \<and>
       (g x = 0 \<or> (\<exists>y. min a b \<le> y \<and> y \<le> max a b \<and> \<bar>y - x\<bar> < xtol + rtol * \<bar>x\<bar> \<and> g x * g y < 0))"
  proof cases
    case 1
    with r show ?thesis by (simp add: bisect_def)
  next
    case 2
    with r show ?thesis by (simp add: bisect_def)
  next
    case 3
    with r have diff: "(g a < 0) \<noteq> (g b < 0)"
      and run: "bisect_loop g (g a) a (b - a) 100 = Inr x"
      by (auto simp: bisect_def split: if_splits)
    have lo: "g a * g a > 0" using 3(1) by (auto simp: zero_less_mult_iff)
    have hi: "g (a + (b - a)) * g a < 0"
      using 3 diff by (auto simp: mult_less_0_iff)
    from bisect_loop_contract [OF run lo hi] show ?thesis by simp
  qed
  then show "min a b \<le> x" "x \<le> max a b"
    "g x = 0 \<or> (\<exists>y. min a b \<le> y \<and> y \<le> max a b \<and> \<bar>y - x\<bar> < xtol + rtol * \<bar>x\<bar> \<and> g x * g y < 0)"
    by blast+
qed

lemma levels_loop_levels:
  "levels_loop bis hist fs acc = Inr levels \<Longrightarrow> hist_min hist = Inr lo \<Longrightarrow> hist_max hist = Inr hi \<Longrightarrow>
   \<exists>new. levels = acc @ new \<and> length new = length fs \<and>
     (\<forall>k<length fs. bis (hfrac hist (fs ! k)) lo hi = Inr (new ! k))"
proof (induction fs arbitrary: acc)
  case Nil
  then show ?case by simp
next
  case (Cons f fs)
  from Cons.prems obtain level where
    first: "bis (hfrac hist f) lo hi = Inr level"
    and later: "levels_loop bis hist fs (acc @ [level]) = Inr levels"
    by (auto split: sum.splits)
  from Cons.IH [OF later Cons.prems(2,3)] obtain new where
    new: "levels = (acc @ [level]) @ new" "length new = length fs"
    "\<forall>k<length fs. bis (hfrac hist (fs ! k)) lo hi = Inr (new ! k)"
    by blast
  have "\<forall>k<length (f # fs). bis (hfrac hist ((f # fs) ! k)) lo hi = Inr ((level # new) ! k)"
  proof (intro allI impI)
    fix k assume "k < length (f # fs)"
    then show "bis (hfrac hist ((f # fs) ! k)) lo hi = Inr ((level # new) ! k)"
      using first new(3) by (cases k) auto
  qed
  with new show ?case by (intro exI [of _ "level # new"]) simp
qed

lemma hist_ends:
  "concat hist \<noteq> [] \<Longrightarrow>
   hist_min hist = Inr (Min (set (concat hist))) \<and> hist_max hist = Inr (Max (set (concat hist)))"
  by (cases "concat hist") (simp_all add: hist_min_def hist_max_def)

lemma hfrac_at_min:
  assumes "concat hist \<noteq> []" and "sum_list (concat hist) \<noteq> 0"
  shows "hfrac hist f (Min (set (concat hist))) = 1 - f"
proof -
  have "filter (\<lambda>h. h \<ge> Min (set (concat hist))) (concat hist) = concat hist"
    by (rule filter_True) simp
  with assms(2) show ?thesis by (simp add: hfrac_def)
qed

lemma sum_list_filter_mono:
  fixes xs :: "real list"
  assumes "\<forall>x \<in> set xs. 0 \<le> x" and "\<And>x. Q x \<Longrightarrow> P x"
  shows "sum_list (filter Q xs) \<le> sum_list (filter P xs)"
  using assms by (induction xs) auto

lemma hfrac_antimono:
  assumes "\<forall>h \<in> set (concat hist). 0 \<le> h" and "0 < sum_list (concat hist)" and "l \<le> l'"
  shows "hfrac hist f l' \<le> hfrac hist f l"
proof -
  have "sum_list (filter (\<lambda>h. h \<ge> l') (concat hist)) \<le> sum_list (filter (\<lambda>h. h \<ge> l) (concat hist))"
    using assms(1,3) by (intro sum_list_filter_mono) auto
  with assms(2) show ?thesis
    by (simp add: hfrac_def divide_right_mono)
qed


lemma bisect_loop_converges:
  "\<bar>dm\<bar> < xtol * 2 ^ Suc n \<Longrightarrow> \<exists>x. bisect_loop f fa xa dm (Suc n) = Inr x"
proof (induction n arbitrary: xa dm)
  case 0
  have "0 \<le> rtol * \<bar>xa + dm * (1/2)\<bar>" by (simp add: rtol_def)
  with 0 have "\<bar>dm * (1/2)\<bar> < xtol + rtol * \<bar>xa + dm * (1/2)\<bar>" by simp
  then show ?case by simp
next
  case (Suc n)
  have half: "\<bar>dm * (1/2)\<bar> < xtol * 2 ^ Suc n" using Suc.prems by simp
  show ?case
  proof (cases "f (xa + dm * (1/2)) = 0 \<or> \<bar>dm * (1/2)\<bar> < xtol + rtol * \<bar>xa + dm * (1/2)\<bar>")
    case True
    then show ?thesis by (subst bisect_loop.simps) simp
  next
    case False
    from Suc.IH [OF half] obtain x where
      "bisect_loop f fa (if f (xa + dm * (1/2)) * fa \<ge> 0 then xa + dm * (1/2) else xa)
         (dm * (1/2)) (Suc n) = Inr x"
      by blast
    with False show ?thesis by (subst bisect_loop.simps) simp
  qed
qed

lemma bisect_returns:
  assumes "f a \<noteq> 0" "f b \<noteq> 0" "(f a < 0) \<noteq> (f b < 0)" "\<bar>b - a\<bar> < xtol * 2 ^ 100"
  shows "\<exists>x. bisect f a b = Inr x"
proof -
  have "\<exists>x. bisect_loop f (f a) a (b - a) (Suc 99) = Inr x"
    using assms(4) by (intro bisect_loop_converges) simp
  with assms(1-3) show ?thesis by (simp add: bisect_def)
qed

lemma contour_levels_first_call:
  assumes "hist_min hist = Inr lo" "hist_max hist = Inr hi" "bis (hfrac hist 0.9973) lo hi = Inl e"
  shows "contour_levels bis hist = Inl e"
  using assms by (simp add: contour_levels_def fractions_def)

text \<open>
  Claim C2, as the code has it. The grid is a density grid: not empty, no value negative,
  positive sum; \<open>lo\<close> and \<open>hi\<close> are its least and greatest values. For each of
  the fractions 0.9973, 0.9545, 0.6827, in this order, \<open>bisect\<close> is called on
  \<open>hfrac\<close> between \<open>lo\<close> and \<open>hi\<close>. \<open>hfrac\<close> is \<open>1 - frac\<close> at
  \<open>lo\<close> and does not increase with the level; it is a step function of the level, so
  a level returned by a bisection routine lies between \<open>lo\<close> and \<open>hi\<close> and
  either has the mass fraction exactly or has, within the routine's tolerance on the
  level, a level where \<open>hfrac\<close> has the other sign: the level is where the mass
  fraction crosses the target, not where it equals it. When \<open>hfrac\<close> has the same
  sign at both ends for one of the fractions the call fails, and on a grid whose values
  are all equal it fails with the routine's \<open>ValueError\<close>.
\<close>

theorem contour_levels_locate_the_crossing:
  assumes "bisection_contract bis"
    and "concat hist \<noteq> []" and "\<forall>h \<in> set (concat hist). 0 \<le> h"
    and "0 < sum_list (concat hist)"
    and "lo = Min (set (concat hist))" and "hi = Max (set (concat hist))"
  shows "(\<forall>f. hfrac hist f lo = 1 - f)
       \<and> (\<forall>f l l'. l \<le> l' \<longrightarrow> hfrac hist f l' \<le> hfrac hist f l)
       \<and> (\<forall>levels. contour_levels bis hist = Inr levels \<longrightarrow>
            length levels = 3 \<and>
            (\<forall>k<3. bis (hfrac hist (fractions ! k)) lo hi = Inr (levels ! k)
               \<and> lo \<le> levels ! k \<and> levels ! k \<le> hi
               \<and> (hfrac hist (fractions ! k) (levels ! k) = 0
                  \<or> (\<exists>l'. lo \<le> l' \<and> l' \<le> hi
                        \<and> \<bar>l' - levels ! k\<bar> < xtol + rtol * \<bar>levels ! k\<bar>
                        \<and> hfrac hist (fractions ! k) (levels ! k)
                            * hfrac hist (fractions ! k) l' < 0))))
       \<and> ((\<exists>f \<in> set fractions. hfrac hist f lo * hfrac hist f hi > 0) \<longrightarrow>
            (\<exists>e. contour_levels bis hist = Inl e))
       \<and> (lo = hi \<longrightarrow> contour_levels bis hist = Inl ValueError)"
proof -
  note ends = hist_ends [OF assms(2), folded assms(5,6)]
  have "set (concat hist) \<noteq> {}"
    using assms(2) by (simp only: set_empty not_False_eq_True)
  then have "Min (set (concat hist)) \<in> set (concat hist)"
    by (intro Min_in) (rule finite_set)
  then have "Min (set (concat hist)) \<le> Max (set (concat hist))"
    by (intro Max_ge) (rule finite_set)
  then have lohi: "lo \<le> hi"
    by (simp only: assms(5,6))
  have at_min: "hfrac hist f lo = 1 - f" for f
    using hfrac_at_min [OF assms(2), of f] assms(4,5) by simp
  have mono: "l \<le> l' \<longrightarrow> hfrac hist f l' \<le> hfrac hist f l" for f l l'
    using hfrac_antimono [OF assms(3,4)] by blast
  have calls: "length levels = 3 \<and> (\<forall>k<3. bis (hfrac hist (fractions ! k)) lo hi = Inr (levels ! k))"
    if "contour_levels bis hist = Inr levels" for levels
  proof -
    from that have "levels_loop bis hist fractions [] = Inr levels"
      by (simp add: contour_levels_def)
    from levels_loop_levels [OF this] ends obtain new where
      "levels = [] @ new" "length new = length fractions"
      "\<forall>k<length fractions. bis (hfrac hist (fractions ! k)) lo hi = Inr (new ! k)"
      by blast
    then show ?thesis by (simp add: fractions_def)
  qed
  have found: "length levels = 3 \<and>
            (\<forall>k<3. bis (hfrac hist (fractions ! k)) lo hi = Inr (levels ! k)
               \<and> lo \<le> levels ! k \<and> levels ! k \<le> hi
               \<and> (hfrac hist (fractions ! k) (levels ! k) = 0
                  \<or> (\<exists>l'. lo \<le> l' \<and> l' \<le> hi
                        \<and> \<bar>l' - levels ! k\<bar> < xtol + rtol * \<bar>levels ! k\<bar>
                        \<and> hfrac hist (fractions ! k) (levels ! k)
                            * hfrac hist (fractions ! k) l' < 0)))"
    if run: "contour_levels bis hist = Inr levels" for levels
  proof (intro conjI allI impI)
    show "length levels = 3" using calls [OF run] by blast
  next
    fix k :: nat assume "k < 3"
    with calls [OF run]
    have call: "bis (hfrac hist (fractions ! k)) lo hi = Inr (levels ! k)" by blast
    then show "bis (hfrac hist (fractions ! k)) lo hi = Inr (levels ! k)" .
    from assms(1) call
    have "min lo hi \<le> levels ! k \<and> levels ! k \<le> max lo hi \<and>
       (hfrac hist (fractions ! k) (levels ! k) = 0 \<or>
        (\<exists>y. min lo hi \<le> y \<and> y \<le> max lo hi \<and>
           \<bar>y - levels ! k\<bar> < xtol + rtol * \<bar>levels ! k\<bar> \<and>
           hfrac hist (fractions ! k) (levels ! k) * hfrac hist (fractions ! k) y < 0))"
      unfolding bisection_contract_def by blast
    with lohi show "lo \<le> levels ! k" "levels ! k \<le> hi"
      "hfrac hist (fractions ! k) (levels ! k) = 0
         \<or> (\<exists>l'. lo \<le> l' \<and> l' \<le> hi
               \<and> \<bar>l' - levels ! k\<bar> < xtol + rtol * \<bar>levels ! k\<bar>
               \<and> hfrac hist (fractions ! k) (levels ! k) * hfrac hist (fractions ! k) l' < 0)"
      by (simp_all add: min_def max_def)
  qed
  have unbracketed: "\<exists>e. contour_levels bis hist = Inl e"
    if "\<exists>f \<in> set fractions. hfrac hist f lo * hfrac hist f hi > 0"
  proof (cases "contour_levels bis hist")
    case (Inl e)
    then show ?thesis by blast
  next
    case (Inr levels)
    from that obtain f where f: "f \<in> set fractions" "hfrac hist f lo * hfrac hist f hi > 0"
      by blast
    then obtain k where "k < length fractions" "fractions ! k = f"
      by (auto simp: in_set_conv_nth)
    moreover have "length fractions = 3"
      by (simp add: fractions_def)
    ultimately have k: "k < 3"
      "hfrac hist (fractions ! k) lo * hfrac hist (fractions ! k) hi > 0"
      using f(2) by simp_all
    from assms(1) k(2) have "bis (hfrac hist (fractions ! k)) lo hi = Inl ValueError"
      unfolding bisection_contract_def by blast
    with calls [OF Inr] k(1) show ?thesis by auto
  qed
  have equal: "contour_levels bis hist = Inl ValueError" if "lo = hi"
  proof -
    have "hfrac hist 0.9973 lo * hfrac hist 0.9973 hi > 0"
      using that at_min [of "0.9973"] by simp
    with assms(1) have "bis (hfrac hist 0.9973) lo hi = Inl ValueError"
      unfolding bisection_contract_def by blast
    with ends show ?thesis by (intro contour_levels_first_call) auto
  qed
  from at_min mono found unbracketed equal show ?thesis by blast
qed

lemma run_exact: "contour_levels bisect exact_grid = Inr [479 / 2, 1727, 6827]"
  unfolding exact_grid_def by code_simp

lemma coarse_ends: "hist_min coarse_grid = Inr 1 \<and> hist_max coarse_grid = Inr 4"
  by (simp add: coarse_grid_def hist_min_def hist_max_def)

lemma coarse_returns: "\<exists>l1 l2 l3. contour_levels bisect coarse_grid = Inr [l1, l2, l3]"
proof -
  have call: "\<exists>x. bisect (hfrac coarse_grid f) 1 4 = Inr x" if "f \<in> set fractions" for f
    using that
    by (intro bisect_returns) (auto simp: hfrac_def coarse_grid_def fractions_def xtol_def)
  obtain l1 where l1: "bisect (hfrac coarse_grid 0.9973) 1 4 = Inr l1"
    using call [of "0.9973"] by (auto simp: fractions_def)
  obtain l2 where l2: "bisect (hfrac coarse_grid 0.9545) 1 4 = Inr l2"
    using call [of "0.9545"] by (auto simp: fractions_def)
  obtain l3 where l3: "bisect (hfrac coarse_grid 0.6827) 1 4 = Inr l3"
    using call [of "0.6827"] by (auto simp: fractions_def)
  from l1 l2 l3 coarse_ends have "contour_levels bisect coarse_grid = Inr [l1, l2, l3]"
    by (simp add: contour_levels_def fractions_def)
  then show ?thesis by blast
qed

text \<open>
  The claim as the specification words it fails on the coarse grid: the bisection
  returns three levels, and no level at all has a mass fraction within 0.04 of 0.9545
  (the mass fractions of this grid are 1, 0.9, 0.7, 0.4 and 0).
\<close>

theorem coarse_grid_misses_the_fraction:
  "(\<exists>l1 l2 l3. contour_levels bisect coarse_grid = Inr [l1, l2, l3])
   \<and> \<not> (\<exists>l. \<bar>hfrac coarse_grid 0.9545 l\<bar> < 0.04)"
  using coarse_returns by (simp add: hfrac_def coarse_grid_def)

theorem contour_levels_locate_the_crossing_witness:
  "bisection_contract bisect
   \<and> concat exact_grid \<noteq> [] \<and> 0 < sum_list (concat exact_grid)
   \<and> contour_levels bisect exact_grid = Inr [479 / 2, 1727, 6827]
   \<and> 27 \<le> [479 / 2, 1727, 6827 :: real] ! 0 \<and> [479 / 2, 1727, 6827 :: real] ! 0 \<le> 6827
   \<and> hfrac exact_grid 0.9973 (479 / 2) = 0
   \<and> concat flat_grid \<noteq> [] \<and> 0 < sum_list (concat flat_grid)
   \<and> Min (set (concat flat_grid)) = Max (set (concat flat_grid))
   \<and> contour_levels bisect flat_grid = Inl ValueError"
proof -
  have e1: "concat exact_grid \<noteq> []" by (simp add: exact_grid_def)
  have e2: "\<forall>h \<in> set (concat exact_grid). 0 \<le> h" by (simp add: exact_grid_def)
  have e3: "0 < sum_list (concat exact_grid)" by (simp add: exact_grid_def)
  have e4: "27 = Min (set (concat exact_grid))" by (simp add: exact_grid_def)
  have e5: "6827 = Max (set (concat exact_grid))" by (simp add: exact_grid_def)
  have f1: "concat flat_grid \<noteq> []" by (simp add: flat_grid_def)
  have f2: "\<forall>h \<in> set (concat flat_grid). 0 \<le> h" by (simp add: flat_grid_def)
  have f3: "0 < sum_list (concat flat_grid)" by (simp add: flat_grid_def)
  have f4: "1 = Min (set (concat flat_grid))" by (simp add: flat_grid_def)
  have f5: "1 = Max (set (concat flat_grid))" by (simp add: flat_grid_def)
  from contour_levels_locate_the_crossing [OF bisect_meets_contract e1 e2 e3 e4 e5] run_exact
  have a: "27 \<le> [479 / 2, 1727, 6827 :: real] ! 0 \<and> [479 / 2, 1727, 6827 :: real] ! 0 \<le> 6827"
    by simp
  from contour_levels_locate_the_crossing [OF bisect_meets_contract f1 f2 f3 f4 f5]
  have b: "contour_levels bisect flat_grid = Inl ValueError" by blast
  have c: "hfrac exact_grid 0.9973 (479 / 2) = 0" by (simp add: hfrac_def exact_grid_def)
  from bisect_meets_contract e1 e3 run_exact a c f1 f3 f4 f5 b show ?thesis by simp
qed

subsection \<open>Stragglers\<close>

lemma straggler_loop_filter:
  "\<forall>i \<in> set is. i < length trace1 \<and> i < length trace2 \<Longrightarrow>
   straggler_loop contains_point outer trace1 trace2 is sx sy =
     Inr (sx @ map (\<lambda>i. trace1 ! i)
                 (filter (\<lambda>i. \<not> (\<exists>p \<in> set outer. contains_point p (trace1 ! i, trace2 ! i))) is),
          sy @ map (\<lambda>i. trace2 ! i)
                 (filter (\<lambda>i. \<not> (\<exists>p \<in> set outer. contains_point p (trace1 ! i, trace2 ! i))) is))"
proof (induction "is" arbitrary: sx sy)
  case Nil
  then show ?case by simp
next
  case (Cons i "is")
  have "(True \<in> set (map (\<lambda>o'. contains_point o' (trace1 ! i, trace2 ! i)) outer))
        = (\<exists>p \<in> set outer. contains_point p (trace1 ! i, trace2 ! i))"
    by auto
  with Cons show ?case by (simp add: Let_def)
qed

lemma straggler_loop_short:
  "\<exists>i \<in> set is. \<not> (i < length trace1 \<and> i < length trace2) \<Longrightarrow>
   straggler_loop contains_point outer trace1 trace2 is sx sy = Inl IndexError"
  by (induction "is" arbitrary: sx sy) (auto simp: Let_def)

lemma zip_as_indices:
  "length xs \<le> length ys \<Longrightarrow> zip xs ys = map (\<lambda>i. (xs ! i, ys ! i)) [0..<length xs]"
  by (rule nth_equalityI) auto

text \<open>
  Claim C3. The paths tested are those of the first contour level,
  \<open>cont.collections[0]\<close>. The stragglers are the points \<open>(trace1[i], trace2[i])\<close>,
  in order, that no path of that level contains: \<open>sx\<close> holds their first and
  \<open>sy\<close> their second coordinates; a point that some path of the level contains is
  left out. The two traces are columns of the same length in \<open>plot_2dkde\<close>.
\<close>

theorem stragglers_are_the_points_outside:
  assumes "length trace1 \<le> length trace2"
  shows "stragglers contains_point (outer # inner) trace1 trace2 =
           Inr (map fst (filter (\<lambda>p. \<not> (\<exists>q \<in> set outer. contains_point q p)) (zip trace1 trace2)),
                map snd (filter (\<lambda>p. \<not> (\<exists>q \<in> set outer. contains_point q p)) (zip trace1 trace2)))"
proof -
  have "\<forall>i \<in> set [0..<length trace1]. i < length trace1 \<and> i < length trace2"
    using assms by auto
  from straggler_loop_filter [OF this, of contains_point outer "[]" "[]"]
  show ?thesis
    by (simp add: stragglers_def zip_as_indices [OF assms] filter_map comp_def)
qed

lemma stragglers_short:
  assumes "length trace2 < length trace1"
  shows "stragglers contains_point (outer # inner) trace1 trace2 = Inl IndexError"
proof -
  have "\<exists>i \<in> set [0..<length trace1]. \<not> (i < length trace1 \<and> i < length trace2)"
    using assms by (intro bexI [of _ "length trace2"]) auto
  from straggler_loop_short [OF this] show ?thesis by (simp add: stragglers_def)
qed

theorem stragglers_are_the_points_outside_witness:
  "length [1, 3 :: real] \<le> length [1, 3 :: real]
   \<and> stragglers in_box [[((0, 0), (2, 2))], [((0, 0), (1, 1))]] [1, 3] [1, 3] = Inr ([3], [3])"
proof -
  have h: "length [1, 3 :: real] \<le> length [1, 3 :: real]" by simp
  from stragglers_are_the_points_outside [OF h, of in_box "[((0, 0), (2, 2))]" "[[((0, 0), (1, 1))]]"] show ?thesis
    by (simp add: in_box_def)
qed

end
